theory Spec2Isabelle
  imports Complex_Main "HOL-Library.AList"
begin

section \<open>Errors\<close>

text \<open>
  Every Go \<^verbatim>\<open>error\<close> value and every run-time panic the modelled code can produce is a
  value of one datatype. A function returning \<^verbatim>\<open>(T, error)\<close> is modelled with the result type
  \<open>error + T\<close>; a function returning only \<^verbatim>\<open>error\<close> with \<open>error option\<close>
  (\<open>None\<close> is \<^verbatim>\<open>nil\<close>).
\<close>

datatype error =
    ErrSyntax                 \<comment> \<open>\<^verbatim>\<open>strconv.ErrSyntax\<close>\<close>
  | ErrRange                  \<comment> \<open>\<^verbatim>\<open>strconv.ErrRange\<close>\<close>
  | InvalidWeekday string     \<comment> \<open>\<^verbatim>\<open>"invalid weekday: %s"\<close>\<close>
  | InvalidDayNumber int      \<comment> \<open>\<^verbatim>\<open>"invalid day number: %d, must be between 1 and 31"\<close>\<close>
  | ParseError                \<comment> \<open>the error of \<^verbatim>\<open>time.Parse\<close>\<close>
  | ErrBadRequest error       \<comment> \<open>\<^verbatim>\<open>models.ErrBadRequest\<close> wrapping a cause\<close>
  | SliceBoundsPanic          \<comment> \<open>run-time panic: slice bounds out of range\<close>
  | UnspecifiedConversion     \<comment> \<open>a float outside the range of \<^verbatim>\<open>int\<close> is converted to \<^verbatim>\<open>int\<close>\<close>

section \<open>Strings: the functions of \<^verbatim>\<open>strings\<close> and \<^verbatim>\<open>strconv\<close> the service calls\<close>

text \<open>
  A Go string is a sequence of bytes; it is modelled as a \<open>string\<close> (a list of 8-bit
  characters). The library functions are modelled on ASCII text: \<open>strings_TrimSpace\<close>
  removes the six ASCII white-space bytes and \<open>strings_ToLower\<close> maps \<open>A..Z\<close> to
  \<open>a..z\<close>; bytes from 0x80 on (UTF-8 encoded non-ASCII runes) are left alone, so the
  Unicode spaces and the Unicode case mappings of the Go library are outside the model.
\<close>

definition asciiSpace :: "char \<Rightarrow> bool" where
  "asciiSpace c \<longleftrightarrow> c \<in> set [CHR 0x09, CHR 0x0A, CHR 0x0B, CHR 0x0C, CHR 0x0D, CHR '' '']"

definition strings_TrimSpace :: "string \<Rightarrow> string" where
  "strings_TrimSpace s = rev (dropWhile asciiSpace (rev (dropWhile asciiSpace s)))"

definition toLowerByte :: "char \<Rightarrow> char" where
  "toLowerByte c =
     (case map_of (zip ''ABCDEFGHIJKLMNOPQRSTUVWXYZ'' ''abcdefghijklmnopqrstuvwxyz'') c of
        Some l \<Rightarrow> l
      | None \<Rightarrow> c)"

definition strings_ToLower :: "string \<Rightarrow> string" where
  "strings_ToLower s = map toLowerByte s"

text \<open>\<^verbatim>\<open>strings.Split(s, sep)\<close> for a one-byte separator: \<open>n\<close> separators give \<open>n + 1\<close> parts.\<close>

fun strings_Split :: "string \<Rightarrow> char \<Rightarrow> string list" where
  "strings_Split [] sep = [[]]"
| "strings_Split (c # cs) sep =
     (if c = sep then [] # strings_Split cs sep
      else (case strings_Split cs sep of
              [] \<Rightarrow> [[c]]
            | p # ps \<Rightarrow> (c # p) # ps))"

definition digitVal :: "char \<Rightarrow> int option" where
  "digitVal c = map_of (zip ''0123456789'' [0, 1, 2, 3, 4, 5, 6, 7, 8, 9]) c"

text \<open>
  The digit loop of \<^verbatim>\<open>strconv.ParseUint(s, 10, 64)\<close>: a byte that is no digit is a syntax
  error, a value beyond \<open>2^64 - 1\<close> a range error, whichever comes first.
\<close>

fun parseUint :: "int \<Rightarrow> string \<Rightarrow> error + int" where
  "parseUint n [] = Inr n"
| "parseUint n (c # cs) =
     (case digitVal c of
        None \<Rightarrow> Inl ErrSyntax
      | Some d \<Rightarrow> if n * 10 + d > 2 ^ 64 - 1 then Inl ErrRange else parseUint (n * 10 + d) cs)"

text \<open>
  \<^verbatim>\<open>strconv.Atoi\<close> with a 64-bit \<^verbatim>\<open>int\<close>: an optional sign, then at least one decimal
  digit; the value must lie in \<open>[-2^63, 2^63 - 1]\<close>.
\<close>

definition strconv_Atoi :: "string \<Rightarrow> error + int" where
  "strconv_Atoi s =
     (case s of
        [] \<Rightarrow> Inl ErrSyntax
      | c # cs \<Rightarrow>
          (let neg = (c = CHR ''-'');
               ds = (if c = CHR ''-'' \<or> c = CHR ''+'' then cs else s)
           in if ds = [] then Inl ErrSyntax
              else (case parseUint 0 ds of
                      Inl e \<Rightarrow> Inl e
                    | Inr un \<Rightarrow>
                        if \<not> neg \<and> un \<ge> 2 ^ 63 then Inl ErrRange
                        else if neg \<and> un > 2 ^ 63 then Inl ErrRange
                        else Inr (if neg then - un else un))))"

section \<open>The repeat specification: validation\<close>

text \<open>\<^verbatim>\<open>time.Weekday\<close> is an integer type: Sunday is 0, Saturday is 6.\<close>

type_synonym Weekday = int

abbreviation (input) Sunday :: Weekday where "Sunday \<equiv> 0"
abbreviation (input) Monday :: Weekday where "Monday \<equiv> 1"
abbreviation (input) Tuesday :: Weekday where "Tuesday \<equiv> 2"
abbreviation (input) Wednesday :: Weekday where "Wednesday \<equiv> 3"
abbreviation (input) Thursday :: Weekday where "Thursday \<equiv> 4"
abbreviation (input) Friday :: Weekday where "Friday \<equiv> 5"
abbreviation (input) Saturday :: Weekday where "Saturday \<equiv> 6"

definition convertToWeekDay :: "string \<Rightarrow> error + Weekday" where
  "convertToWeekDay day =
     (let d = strings_ToLower day in
      if d = ''mon'' \<or> d = ''monday'' then Inr Monday
      else if d = ''tue'' \<or> d = ''tuesday'' then Inr Tuesday
      else if d = ''wed'' \<or> d = ''wednesday'' then Inr Wednesday
      else if d = ''thu'' \<or> d = ''thursday'' then Inr Thursday
      else if d = ''fri'' \<or> d = ''friday'' then Inr Friday
      else if d = ''sat'' \<or> d = ''saturday'' then Inr Saturday
      else if d = ''sun'' \<or> d = ''sunday'' then Inr Sunday
      else Inl (InvalidWeekday day))"

text \<open>The loop of \<^verbatim>\<open>validateRepeatString\<close> over the parts, returning at the first error.\<close>

fun validateParts :: "string list \<Rightarrow> error option" where
  "validateParts [] = None"
| "validateParts (p # parts) =
     (let part = strings_TrimSpace p in
      if part = [] then validateParts parts
      else (case strconv_Atoi part of
              Inr num \<Rightarrow>
                if num < 1 \<or> num > 31 then Some (InvalidDayNumber num)
                else validateParts parts
            | Inl _ \<Rightarrow>
                (case convertToWeekDay part of
                   Inl _ \<Rightarrow> Some (InvalidWeekday part)
                 | Inr _ \<Rightarrow> validateParts parts)))"

definition validateRepeatString :: "string \<Rightarrow> error option" where
  "validateRepeatString repeatTime =
     (if repeatTime = [] then None
      else validateParts (strings_Split repeatTime CHR '',''))"

subsection \<open>The token grammar, in the words of the specification\<close>

text \<open>
  A token is a day of the month when it reads as an integer between 1 and 31, and a weekday
  when, case-insensitively, it is one of the fourteen names \<open>mon .. sun\<close>,
  \<open>monday .. sunday\<close>. \<open>tokenAccepted\<close> adds the empty token, which the loop skips.
  \<open>offence\<close> is what a rejection names: the number of a numeric token, the text of any
  other.
\<close>
definition isDayToken :: "string \<Rightarrow> bool" where
  "isDayToken t = (case strconv_Atoi t of Inr n \<Rightarrow> 1 \<le> n \<and> n \<le> 31 | Inl _ \<Rightarrow> False)"

definition weekdayNames :: "string list" where
  "weekdayNames = [''mon'', ''monday'', ''tue'', ''tuesday'', ''wed'', ''wednesday'',
     ''thu'', ''thursday'', ''fri'', ''friday'', ''sat'', ''saturday'', ''sun'', ''sunday'']"

definition isWeekdayToken :: "string \<Rightarrow> bool" where
  "isWeekdayToken t \<longleftrightarrow> strings_ToLower t \<in> set weekdayNames"

definition tokenAccepted :: "string \<Rightarrow> bool" where
  "tokenAccepted t \<longleftrightarrow> t = [] \<or> isDayToken t \<or> isWeekdayToken t"


section \<open>Time: the part of package \<^verbatim>\<open>time\<close> the service calls\<close>

text \<open>
  A \<^verbatim>\<open>time.Time\<close> is modelled as the instant it denotes: the number of nanoseconds since
  the zero time, January 1 of year 1, 00:00:00 UTC (the value \<^verbatim>\<open>IsZero\<close> recognises).
  The calendar is the proleptic Gregorian calendar Go uses. Every location is UTC: time
  zones and the monotonic clock reading are outside the model. A \<^verbatim>\<open>time.Duration\<close> is a
  number of nanoseconds.
\<close>

type_synonym Time = int
type_synonym Duration = int

definition time_Hour :: Duration where
  "time_Hour = 3600000000000"

definition nsPerDay :: int where
  "nsPerDay = 86400000000000"

definition IsZero :: "Time \<Rightarrow> bool" where
  "IsZero t \<longleftrightarrow> t = 0"

definition After :: "Time \<Rightarrow> Time \<Rightarrow> bool" where
  "After t u \<longleftrightarrow> t > u"

definition Before :: "Time \<Rightarrow> Time \<Rightarrow> bool" where
  "Before t u \<longleftrightarrow> t < u"

definition Equal :: "Time \<Rightarrow> Time \<Rightarrow> bool" where
  "Equal t u \<longleftrightarrow> t = u"

definition Add :: "Time \<Rightarrow> Duration \<Rightarrow> Time" where
  "Add t d = t + d"

text \<open>\<^verbatim>\<open>t.Truncate(d)\<close> rounds the time since the zero time down to a multiple of \<open>d\<close>.\<close>

definition Truncate :: "Time \<Rightarrow> Duration \<Rightarrow> Time" where
  "Truncate t d = (if d \<le> 0 then t else t - t mod d)"

definition isLeap :: "int \<Rightarrow> bool" where
  "isLeap year \<longleftrightarrow> year mod 4 = 0 \<and> (year mod 100 \<noteq> 0 \<or> year mod 400 = 0)"

text \<open>\<open>daysBefore ! m\<close>: the days of a non-leap year before month \<open>m + 1\<close>.\<close>

definition daysBefore :: "int list" where
  "daysBefore = [0, 31, 59, 90, 120, 151, 181, 212, 243, 273, 304, 334, 365]"

definition daysIn :: "int \<Rightarrow> int \<Rightarrow> int" where
  "daysIn m year =
     (if m = 2 \<and> isLeap year then 29
      else daysBefore ! nat m - daysBefore ! nat (m - 1))"

text \<open>The days from the zero time to January 1 of \<open>year\<close>.\<close>

definition daysSinceEpoch :: "int \<Rightarrow> int" where
  "daysSinceEpoch year =
     365 * (year - 1) + (year - 1) div 4 - (year - 1) div 100 + (year - 1) div 400"

text \<open>
  \<^verbatim>\<open>time.Date(year, month, day, hour, min, sec, nsec, loc)\<close>. The month is normalised into
  the year; a day, hour, minute, second or nanosecond out of range overflows into the next
  unit, so that the result is linear in each of them: October 32 is November 1.
\<close>

definition dateToDays :: "int \<Rightarrow> int \<Rightarrow> int \<Rightarrow> int" where
  "dateToDays year month day =
     (let y = year + (month - 1) div 12;
          m = (month - 1) mod 12 + 1
      in daysSinceEpoch y + daysBefore ! nat (m - 1)
           + (if isLeap y \<and> m \<ge> 3 then 1 else 0) + (day - 1))"

definition time_Date :: "int \<Rightarrow> int \<Rightarrow> int \<Rightarrow> int \<Rightarrow> int \<Rightarrow> int \<Rightarrow> int \<Rightarrow> Time" where
  "time_Date year month day hour minute sec nsec =
     dateToDays year month day * nsPerDay
       + hour * 3600000000000 + minute * 60000000000 + sec * 1000000000 + nsec"

text \<open>
  The civil date of a day number: the year by cycles of 400, 100, 4 and 1 years, then
  the month by running through the months of that year.
\<close>

definition absDays :: "Time \<Rightarrow> int" where
  "absDays t = t div nsPerDay"

definition civilYear :: "int \<Rightarrow> int" where
  "civilYear n =
     (let n400 = n div 146097; r0 = n mod 146097;
          n100 = min (r0 div 36524) 3; r1 = r0 - 36524 * n100;
          n4 = r1 div 1461; r2 = r1 mod 1461;
          n1 = min (r2 div 365) 3
      in 400 * n400 + 100 * n100 + 4 * n4 + n1 + 1)"

definition civilYday :: "int \<Rightarrow> int" where
  "civilYday n =
     (let r0 = n mod 146097;
          n100 = min (r0 div 36524) 3; r1 = r0 - 36524 * n100;
          r2 = r1 mod 1461;
          n1 = min (r2 div 365) 3
      in r2 - 365 * n1)"

function findMonth :: "int \<Rightarrow> int \<Rightarrow> int \<Rightarrow> int \<times> int" where
  "findMonth year m r =
     (if m < 12 \<and> daysIn m year \<le> r then findMonth year (m + 1) (r - daysIn m year)
      else (m, r + 1))"
  by pat_completeness auto
termination
  by (relation "measure (\<lambda>(year, m, r). nat (12 - m))") auto

definition Year :: "Time \<Rightarrow> int" where
  "Year t = civilYear (absDays t)"

definition Month :: "Time \<Rightarrow> int" where
  "Month t = fst (findMonth (Year t) 1 (civilYday (absDays t)))"

definition Day :: "Time \<Rightarrow> int" where
  "Day t = snd (findMonth (Year t) 1 (civilYday (absDays t)))"

text \<open>The zero time is a Monday.\<close>

definition Weekday :: "Time \<Rightarrow> Weekday" where
  "Weekday t = (absDays t + 1) mod 7"

definition Clock :: "Time \<Rightarrow> int \<times> int \<times> int" where
  "Clock t =
     (let s = (t mod nsPerDay) div 1000000000
      in (s div 3600, (s mod 3600) div 60, s mod 60))"

definition Nanosecond :: "Time \<Rightarrow> int" where
  "Nanosecond t = t mod 1000000000"

definition AddDate :: "Time \<Rightarrow> int \<Rightarrow> int \<Rightarrow> int \<Rightarrow> Time" where
  "AddDate t years months days =
     (case Clock t of (hour, minute, sec) \<Rightarrow>
        time_Date (Year t + years) (Month t + months) (Day t + days)
          hour minute sec (Nanosecond t))"

subsection \<open>Decimal text\<close>

fun digitsNat :: "nat \<Rightarrow> string" where
  "digitsNat n =
     (if n < 10 then [''0123456789'' ! n]
      else digitsNat (n div 10) @ [''0123456789'' ! (n mod 10)])"

definition strconv_Itoa :: "int \<Rightarrow> string" where
  "strconv_Itoa i = (if i < 0 then CHR ''-'' # digitsNat (nat (- i)) else digitsNat (nat i))"

text \<open>The zero-padded integer fields of \<^verbatim>\<open>Format\<close>.\<close>

definition appendInt :: "int \<Rightarrow> nat \<Rightarrow> string" where
  "appendInt x width =
     (let ds = digitsNat (nat \<bar>x\<bar>)
      in (if x < 0 then ''-'' else []) @ replicate (width - length ds) CHR ''0'' @ ds)"

text \<open>\<^verbatim>\<open>t.Format("2006-01-02")\<close>.\<close>

definition Format :: "Time \<Rightarrow> string" where
  "Format t = appendInt (Year t) 4 @ ''-'' @ appendInt (Month t) 2 @ ''-'' @ appendInt (Day t) 2"

text \<open>
  \<^verbatim>\<open>time.Parse("2006-01-02", value)\<close>: four digits, a dash, two digits, a dash, two
  digits and nothing more; the month in \<open>[1, 12]\<close>, the day in the month.
\<close>

definition time_Parse :: "string \<Rightarrow> error + Time" where
  "time_Parse v =
     (case v of
        [y1, y2, y3, y4, s1, m1, m2, s2, d1, d2] \<Rightarrow>
          (case (parseUint 0 [y1, y2, y3, y4], parseUint 0 [m1, m2], parseUint 0 [d1, d2]) of
             (Inr year, Inr month, Inr day) \<Rightarrow>
               if s1 \<noteq> CHR ''-'' \<or> s2 \<noteq> CHR ''-'' then Inl ParseError
               else if month < 1 \<or> 12 < month then Inl ParseError
               else if day < 1 \<or> daysIn month year < day then Inl ParseError
               else Inr (time_Date year month day 0 0 0 0)
           | _ \<Rightarrow> Inl ParseError)
      | _ \<Rightarrow> Inl ParseError)"

section \<open>Properties of the calendar\<close>

lemma div_pred:
  fixes y k :: int
  assumes "0 < k"
  shows "y div k = (y - 1) div k + (if y mod k = 0 then 1 else 0)"
proof -
  define q where "q = (y - 1) div k"
  define r where "r = (y - 1) mod k"
  have y: "y = k * q + r + 1" unfolding q_def r_def by simp
  have r: "0 \<le> r" "r < k" using assms unfolding r_def by simp_all
  show ?thesis
  proof (cases "r + 1 = k")
    case True
    then have "y = k * (q + 1)" using y by (simp add: algebra_simps)
    then have "y div k = q + 1" "y mod k = 0" using assms by simp_all
    then show ?thesis unfolding q_def by simp
  next
    case False
    with r have r1: "0 \<le> r + 1" "r + 1 < k" by simp_all
    have "y = k * q + (r + 1)" using y by simp
    with r1 have "y div k = q" "y mod k = r + 1"
      by (auto intro: int_div_pos_eq int_mod_pos_eq)
    with r show ?thesis unfolding q_def by simp
  qed
qed

lemma mod_100_4: "(y::int) mod 100 = 0 \<Longrightarrow> y mod 4 = 0"
  using mod_mod_cancel[of 4 100 y] by simp

lemma mod_400_100: "(y::int) mod 400 = 0 \<Longrightarrow> y mod 100 = 0"
  using mod_mod_cancel[of 100 400 y] by simp

lemma div_pred_zero: "0 < (k::int) \<Longrightarrow> y mod k = 0 \<Longrightarrow> y div k = (y - 1) div k + 1"
  using div_pred[of k y] by simp

lemma div_pred_nonzero: "0 < (k::int) \<Longrightarrow> y mod k \<noteq> 0 \<Longrightarrow> y div k = (y - 1) div k"
  using div_pred[of k y] by simp

lemma year_length:
  "daysSinceEpoch (y + 1) = daysSinceEpoch y + (if isLeap y then 366 else 365)"
proof -
  have e: "daysSinceEpoch (y + 1) = 365 * y + y div 4 - y div 100 + y div 400"
    by (simp add: daysSinceEpoch_def)
  have f: "daysSinceEpoch y = 365 * y - 365 + (y - 1) div 4 - (y - 1) div 100 + (y - 1) div 400"
    by (simp add: daysSinceEpoch_def)
  show ?thesis
  proof (cases "y mod 4 = 0")
    case n4: False
    then have n100: "y mod 100 \<noteq> 0" using mod_100_4[of y] by (rule contrapos_nn)
    then have n400: "y mod 400 \<noteq> 0" using mod_400_100[of y] by (rule contrapos_nn)
    have "y div 4 = (y - 1) div 4" by (rule div_pred_nonzero[OF _ n4]) simp
    moreover have "y div 100 = (y - 1) div 100" by (rule div_pred_nonzero[OF _ n100]) simp
    moreover have "y div 400 = (y - 1) div 400" by (rule div_pred_nonzero[OF _ n400]) simp
    ultimately have "daysSinceEpoch (y + 1) = daysSinceEpoch y + 365" using e f by linarith
    moreover from n4 have "\<not> isLeap y" unfolding isLeap_def by (rule contrapos_nn) (erule conjunct1)
    ultimately show ?thesis by (simp only: if_False)
  next
    case l4: True
    have d4: "y div 4 = (y - 1) div 4 + 1" by (rule div_pred_zero[OF _ l4]) simp
    show ?thesis
    proof (cases "y mod 100 = 0")
      case n100: False
      then have n400: "y mod 400 \<noteq> 0" using mod_400_100[of y] by (rule contrapos_nn)
      have "y div 100 = (y - 1) div 100" by (rule div_pred_nonzero[OF _ n100]) simp
      moreover have "y div 400 = (y - 1) div 400" by (rule div_pred_nonzero[OF _ n400]) simp
      ultimately have "daysSinceEpoch (y + 1) = daysSinceEpoch y + 366" using d4 e f by linarith
      moreover from l4 n100 have "isLeap y" unfolding isLeap_def by (intro conjI disjI1)
      ultimately show ?thesis by (simp only: if_True)
    next
      case l100: True
      have d100: "y div 100 = (y - 1) div 100 + 1" by (rule div_pred_zero[OF _ l100]) simp
      show ?thesis
      proof (cases "y mod 400 = 0")
        case n400: False
        have "y div 400 = (y - 1) div 400" by (rule div_pred_nonzero[OF _ n400]) simp
        then have "daysSinceEpoch (y + 1) = daysSinceEpoch y + 365" using d4 d100 e f by linarith
        moreover from l100 n400 have "\<not> isLeap y" unfolding isLeap_def by (intro notI) (elim conjE disjE; (erule notE, assumption))
        ultimately show ?thesis by (simp only: if_False)
      next
        case l400: True
        have "y div 400 = (y - 1) div 400 + 1" by (rule div_pred_zero[OF _ l400]) simp
        then have "daysSinceEpoch (y + 1) = daysSinceEpoch y + 366" using d4 d100 e f by linarith
        moreover from l4 l400 have "isLeap y" unfolding isLeap_def by (intro conjI disjI2)
        ultimately show ?thesis by (simp only: if_True)
      qed
    qed
  qed
qed


lemma civil_decomp_aux:
  fixes n :: int
  defines "q \<equiv> n div 146097" and "r0 \<equiv> n mod 146097"
  defines "a \<equiv> min (r0 div 36524) 3"
  defines "r1 \<equiv> r0 - 36524 * a"
  defines "b \<equiv> r1 div 1461" and "r2 \<equiv> r1 mod 1461"
  defines "c \<equiv> min (r2 div 365) 3"
  defines "r3 \<equiv> r2 - 365 * c"
  shows "civilYear n = 400 * q + 100 * a + 4 * b + c + 1"
    and "civilYday n = r3"
    and "n = 146097 * q + 36524 * a + 1461 * b + 365 * c + r3"
    and "0 \<le> a" "a \<le> 3" "0 \<le> b" "b \<le> 24" "0 \<le> c" "c \<le> 3" "0 \<le> r3" "r3 \<le> 365"
    and "r3 = 365 \<longrightarrow> c = 3 \<and> (b = 24 \<longrightarrow> a = 3)"
proof -
  show "civilYear n = 400 * q + 100 * a + 4 * b + c + 1"
    unfolding civilYear_def Let_def q_def r0_def a_def r1_def b_def r2_def c_def by simp
  show "civilYday n = r3"
    unfolding civilYday_def Let_def q_def r0_def a_def r1_def b_def r2_def c_def r3_def by simp
  have r0: "0 \<le> r0" "r0 < 146097" unfolding r0_def by simp_all
  have a0: "0 \<le> r0 div 36524" using r0 by simp
  show a: "0 \<le> a" "a \<le> 3" using a0 unfolding a_def by simp_all
  have r0d: "r0 = 36524 * (r0 div 36524) + r0 mod 36524" by simp
  have r0m: "0 \<le> r0 mod 36524" "r0 mod 36524 < 36524" by simp_all
  have r1: "0 \<le> r1 \<and> r1 \<le> 36524 \<and> (a < 3 \<longrightarrow> r1 < 36524)"
  proof (cases "r0 div 36524 < 3")
    case True
    then have "a = r0 div 36524" unfolding a_def by simp
    then have "r1 = r0 mod 36524" unfolding r1_def using r0d by linarith
    with r0m show ?thesis by simp
  next
    case False
    then have a3: "a = 3" unfolding a_def by simp
    from False r0d r0m have "109572 \<le> r0" by linarith
    with r0 a3 show ?thesis unfolding r1_def by simp
  qed
  have b0: "0 \<le> r1 div 1461" using r1 by (simp add: pos_imp_zdiv_nonneg_iff)
  have "r1 div 1461 \<le> 36524 div 1461" using r1 by (intro zdiv_mono1) simp_all
  then show b: "0 \<le> b" "b \<le> 24" using b0 unfolding b_def by simp_all
  have r2: "0 \<le> r2" "r2 < 1461" unfolding r2_def by simp_all
  have c0: "0 \<le> r2 div 365" using r2 by simp
  show c: "0 \<le> c" "c \<le> 3" using c0 unfolding c_def by simp_all
  have r2d: "r2 = 365 * (r2 div 365) + r2 mod 365" by simp
  have r2m: "0 \<le> r2 mod 365" "r2 mod 365 < 365" by simp_all
  have r3c: "0 \<le> r3 \<and> r3 \<le> 365 \<and> (c < 3 \<longrightarrow> r3 < 365)"
  proof (cases "r2 div 365 < 3")
    case True
    then have "c = r2 div 365" unfolding c_def by simp
    then have "r3 = r2 mod 365" unfolding r3_def using r2d by linarith
    with r2m show ?thesis by simp
  next
    case False
    then have c3: "c = 3" unfolding c_def by simp
    from False r2d r2m have "1095 \<le> r2" by linarith
    with r2 c3 show ?thesis unfolding r3_def by simp
  qed
  then show "0 \<le> r3" "r3 \<le> 365" by simp_all
  have n: "n = 146097 * q + r0" unfolding q_def r0_def by simp
  have r1d: "r1 = 1461 * b + r2" unfolding b_def r2_def by simp
  show "n = 146097 * q + 36524 * a + 1461 * b + 365 * c + r3"
    using n r1d unfolding r3_def r1_def by linarith
  show "r3 = 365 \<longrightarrow> c = 3 \<and> (b = 24 \<longrightarrow> a = 3)"
  proof (intro impI conjI)
    assume r3: "r3 = 365"
    with r3c c show c3: "c = 3" by linarith
    assume "b = 24"
    with r3 c3 r1d have "r1 = 36524" unfolding r3_def by simp
    with r1 a show "a = 3" by linarith
  qed
qed

lemma civil_decomp_obtain:
  obtains q a b c r where
    "civilYear n = 400 * q + 100 * a + 4 * b + c + 1"
    "civilYday n = r"
    "n = 146097 * q + 36524 * a + 1461 * b + 365 * c + r"
    "0 \<le> a" "a \<le> 3" "0 \<le> b" "b \<le> 24" "0 \<le> c" "c \<le> 3" "0 \<le> r" "r \<le> 365"
    "r = 365 \<longrightarrow> c = 3 \<and> (b = 24 \<longrightarrow> a = 3)"
  by (rule that[OF civil_decomp_aux])

lemma civil_decomp: "daysSinceEpoch (civilYear n) + civilYday n = n"
proof -
  obtain q a b c r where
    Y: "civilYear n = 400 * q + 100 * a + 4 * b + c + 1" and
    r: "civilYday n = r" and
    n: "n = 146097 * q + 36524 * a + 1461 * b + 365 * c + r" and
    bd: "0 \<le> a" "a \<le> 3" "0 \<le> b" "b \<le> 24" "0 \<le> c" "c \<le> 3"
    by (rule civil_decomp_obtain)
  define Y0 where "Y0 = 400 * q + 100 * a + 4 * b + c"
  have d4: "Y0 div 4 = 100 * q + 25 * a + b"
    by (rule int_div_pos_eq[where r = c]) (use bd in \<open>simp_all add: Y0_def\<close>)
  have d100: "Y0 div 100 = 4 * q + a"
    by (rule int_div_pos_eq[where r = "4 * b + c"]) (use bd in \<open>simp_all add: Y0_def\<close>)
  have d400: "Y0 div 400 = q"
    by (rule int_div_pos_eq[where r = "100 * a + 4 * b + c"]) (use bd in \<open>simp_all add: Y0_def\<close>)
  have "daysSinceEpoch (Y0 + 1) = 365 * Y0 + Y0 div 4 - Y0 div 100 + Y0 div 400"
    by (simp add: daysSinceEpoch_def)
  then have "daysSinceEpoch (Y0 + 1) = 365 * Y0 + (100 * q + 25 * a + b) - (4 * q + a) + q"
    by (simp only: d4 d100 d400)
  also have "\<dots> = 146097 * q + 36524 * a + 1461 * b + 365 * c"
    unfolding Y0_def by simp
  finally have "daysSinceEpoch (Y0 + 1) = 146097 * q + 36524 * a + 1461 * b + 365 * c" .
  moreover have "civilYear n = Y0 + 1" using Y unfolding Y0_def by simp
  ultimately show ?thesis using r n by simp
qed

lemma civilYday_nonneg: "0 \<le> civilYday n"
proof -
  obtain q a b c r where "civilYday n = r" "0 \<le> r"
    by (rule civil_decomp_obtain[of n])
  then show ?thesis by simp
qed

lemma civilYday_less: "civilYday n < (if isLeap (civilYear n) then 366 else 365)"
proof -
  obtain q a b c r where
    Y: "civilYear n = 400 * q + 100 * a + 4 * b + c + 1" and
    r: "civilYday n = r" and
    bd: "0 \<le> a" "a \<le> 3" "0 \<le> b" "b \<le> 24" "0 \<le> c" "c \<le> 3" "0 \<le> r" "r \<le> 365" and
    lp: "r = 365 \<longrightarrow> c = 3 \<and> (b = 24 \<longrightarrow> a = 3)"
    by (rule civil_decomp_obtain)
  show ?thesis
  proof (cases "r = 365")
    case False
    with bd r show ?thesis by simp
  next
    case True
    with lp have c3: "c = 3" and ba: "b = 24 \<longrightarrow> a = 3" by simp_all
    have m4: "civilYear n mod 4 = 0"
      by (rule int_mod_pos_eq[where q = "100 * q + 25 * a + b + 1"]) (simp_all add: Y c3)
    have "civilYear n mod 100 \<noteq> 0 \<or> civilYear n mod 400 = 0"
    proof (cases "b = 24")
      case True
      with ba have "a = 3" by simp
      have "civilYear n mod 400 = 0"
        by (rule int_mod_pos_eq[where q = "q + 1"]) (simp_all add: Y c3 \<open>a = 3\<close> \<open>b = 24\<close>)
      then show ?thesis ..
    next
      case False
      with bd have b: "b \<le> 23" by simp
      have "civilYear n mod 100 = 4 * b + 4"
        by (rule int_mod_pos_eq[where q = "4 * q + a"]) (use bd b in \<open>simp_all add: Y c3\<close>)
      with bd have "civilYear n mod 100 \<noteq> 0" by simp
      then show ?thesis ..
    qed
    with m4 have "isLeap (civilYear n)" unfolding isLeap_def by (rule conjI)
    with r True show ?thesis by simp
  qed
qed

definition daysBeforeMonth :: "int \<Rightarrow> int \<Rightarrow> int" where
  "daysBeforeMonth y m = daysBefore ! nat (m - 1) + (if isLeap y \<and> 3 \<le> m then 1 else 0)"

lemma month_cases:
  assumes "1 \<le> (m::int)" "m \<le> 12"
  shows "m = 1 \<or> m = 2 \<or> m = 3 \<or> m = 4 \<or> m = 5 \<or> m = 6 \<or> m = 7 \<or> m = 8 \<or> m = 9
         \<or> m = 10 \<or> m = 11 \<or> m = 12"
  using assms by arith

lemma daysBeforeMonth_step:
  assumes "1 \<le> m" "m \<le> 12"
  shows "daysBeforeMonth y (m + 1) = daysBeforeMonth y m + daysIn m y"
  using month_cases[OF assms]
  by (elim disjE) (simp_all add: daysBeforeMonth_def daysIn_def daysBefore_def)

lemma daysIn_bounds:
  assumes "1 \<le> m" "m \<le> 12"
  shows "28 \<le> daysIn m y \<and> daysIn m y \<le> 31"
  using month_cases[OF assms]
  by (elim disjE) (simp_all add: daysIn_def daysBefore_def)

lemma daysBeforeMonth_1: "daysBeforeMonth y 1 = 0"
  by (simp add: daysBeforeMonth_def daysBefore_def)

lemma daysBeforeMonth_13: "daysBeforeMonth y 13 = (if isLeap y then 366 else 365)"
  by (simp add: daysBeforeMonth_def daysBefore_def)

lemma daysBeforeMonth_mono:
  assumes "1 \<le> a" "a \<le> b" "b \<le> 13"
  shows "daysBeforeMonth y a \<le> daysBeforeMonth y b"
proof -
  have "b \<le> 13 \<longrightarrow> daysBeforeMonth y a \<le> daysBeforeMonth y b"
    using \<open>a \<le> b\<close>
  proof (induction b rule: int_ge_induct)
    case base
    show ?case by simp
  next
    case (step i)
    show ?case
    proof
      assume "i + 1 \<le> 13"
      with step \<open>1 \<le> a\<close> have i: "1 \<le> i" "i \<le> 12" and le: "daysBeforeMonth y a \<le> daysBeforeMonth y i"
        by simp_all
      from daysBeforeMonth_step[OF i, of y] daysIn_bounds[OF i, of y] le
      show "daysBeforeMonth y a \<le> daysBeforeMonth y (i + 1)" by linarith
    qed
  qed
  with assms show ?thesis by simp
qed

lemma findMonth_spec:
  assumes "1 \<le> m" "m \<le> 12" "0 \<le> r" "daysBeforeMonth y m + r < daysBeforeMonth y 13"
  shows "m \<le> fst (findMonth y m r) \<and> fst (findMonth y m r) \<le> 12
         \<and> 1 \<le> snd (findMonth y m r)
         \<and> snd (findMonth y m r) \<le> daysIn (fst (findMonth y m r)) y
         \<and> daysBeforeMonth y (fst (findMonth y m r)) + snd (findMonth y m r) - 1
             = daysBeforeMonth y m + r"
  using assms
proof (induction y m r rule: findMonth.induct)
  case (1 year m r)
  show ?case
  proof (cases "m < 12 \<and> daysIn m year \<le> r")
    case True
    then have eq: "findMonth year m r = findMonth year (m + 1) (r - daysIn m year)"
      by (subst findMonth.simps) simp
    from True "1.prems" have m: "1 \<le> m" "m \<le> 12" by simp_all
    have st: "daysBeforeMonth year (m + 1) = daysBeforeMonth year m + daysIn m year"
      by (rule daysBeforeMonth_step[OF m])
    have "m + 1 \<le> fst (findMonth year (m + 1) (r - daysIn m year))
         \<and> fst (findMonth year (m + 1) (r - daysIn m year)) \<le> 12
         \<and> 1 \<le> snd (findMonth year (m + 1) (r - daysIn m year))
         \<and> snd (findMonth year (m + 1) (r - daysIn m year))
              \<le> daysIn (fst (findMonth year (m + 1) (r - daysIn m year))) year
         \<and> daysBeforeMonth year (fst (findMonth year (m + 1) (r - daysIn m year)))
               + snd (findMonth year (m + 1) (r - daysIn m year)) - 1
             = daysBeforeMonth year (m + 1) + (r - daysIn m year)"
      using True "1.prems" st by (intro "1.IH") simp_all
    with st show ?thesis unfolding eq by simp
  next
    case False
    then have eq: "findMonth year m r = (m, r + 1)"
      by (subst findMonth.simps) simp
    have "r < daysIn m year"
    proof (cases "m < 12")
      case True
      with False show ?thesis by simp
    next
      case False
      with "1.prems" have "m = 12" by simp
      with daysBeforeMonth_step[of 12 year] "1.prems" show ?thesis by simp
    qed
    with "1.prems" show ?thesis unfolding eq by simp
  qed
qed

lemma civil_valid:
  "1 \<le> Month t \<and> Month t \<le> 12 \<and> 1 \<le> Day t \<and> Day t \<le> daysIn (Month t) (Year t)
   \<and> daysSinceEpoch (Year t) + daysBeforeMonth (Year t) (Month t) + Day t - 1 = absDays t"
proof -
  have a: "0 \<le> civilYday (absDays t)" by (rule civilYday_nonneg)
  have b: "daysBeforeMonth (Year t) 1 + civilYday (absDays t) < daysBeforeMonth (Year t) 13"
    using civilYday_less[of "absDays t"]
    by (simp only: daysBeforeMonth_1 daysBeforeMonth_13 Year_def)
  have "1 \<le> (1::int)" "(1::int) \<le> 12" by simp_all
  from findMonth_spec[OF this a b] civil_decomp[of "absDays t"]
  show ?thesis
    unfolding Month_def Day_def daysBeforeMonth_1 by (simp add: Year_def)
qed

lemma dateToDays_valid:
  assumes "1 \<le> m" "m \<le> 12"
  shows "dateToDays y m d = daysSinceEpoch y + daysBeforeMonth y m + d - 1"
proof -
  from assms have "(m - 1) div 12 = 0" "(m - 1) mod 12 = m - 1" by simp_all
  then show ?thesis
    by (simp add: dateToDays_def daysBeforeMonth_def Let_def)
qed

lemma date_roundtrip: "dateToDays (Year t) (Month t) (Day t) = absDays t"
  using civil_valid[of t] by (simp add: dateToDays_valid)

lemma daysSinceEpoch_mono:
  assumes "a \<le> b"
  shows "daysSinceEpoch a \<le> daysSinceEpoch b"
  using assms
proof (induction b rule: int_ge_induct)
  case base
  show ?case by simp
next
  case (step i)
  have "daysSinceEpoch i \<le> daysSinceEpoch (i + 1)"
    by (simp only: year_length split: if_split) simp
  with step show ?case by linarith
qed

lemma year_unique:
  assumes "daysSinceEpoch y \<le> n" "n < daysSinceEpoch (y + 1)"
  shows "civilYear n = y" and "civilYday n = n - daysSinceEpoch y"
proof -
  let ?Y = "civilYear n"
  have d: "daysSinceEpoch ?Y + civilYday n = n" by (rule civil_decomp)
  have lo: "daysSinceEpoch ?Y \<le> n" using d civilYday_nonneg[of n] by linarith
  have "civilYday n < daysSinceEpoch (?Y + 1) - daysSinceEpoch ?Y"
    using civilYday_less[of n] by (simp only: year_length)
  with d have hi: "n < daysSinceEpoch (?Y + 1)" by linarith
  show Y: "?Y = y"
  proof (rule ccontr)
    assume "?Y \<noteq> y"
    then consider "?Y + 1 \<le> y" | "y + 1 \<le> ?Y" by linarith
    then show False
    proof cases
      case 1
      from daysSinceEpoch_mono[OF 1] hi assms show False by linarith
    next
      case 2
      from daysSinceEpoch_mono[OF 2] lo assms show False by linarith
    qed
  qed
  with d show "civilYday n = n - daysSinceEpoch y" by simp
qed

lemma civil_of_valid:
  assumes "1 \<le> m" "m \<le> 12" "1 \<le> d" "d \<le> daysIn m y"
  shows "civilYear (dateToDays y m d) = y"
    and "findMonth y 1 (civilYday (dateToDays y m d)) = (m, d)"
proof -
  let ?off = "daysBeforeMonth y m + d - 1"
  have n: "dateToDays y m d = daysSinceEpoch y + ?off"
    using assms by (simp add: dateToDays_valid)
  have st: "daysBeforeMonth y (m + 1) = daysBeforeMonth y m + daysIn m y"
    by (rule daysBeforeMonth_step) fact+
  have "daysBeforeMonth y (m + 1) \<le> daysBeforeMonth y 13"
    using assms by (intro daysBeforeMonth_mono) simp_all
  with st assms have hi: "?off < daysBeforeMonth y 13" by linarith
  have "daysBeforeMonth y 1 \<le> daysBeforeMonth y m"
    using assms by (intro daysBeforeMonth_mono) simp_all
  with assms have lo: "0 \<le> ?off" by (simp add: daysBeforeMonth_1)
  have yl: "daysSinceEpoch (y + 1) = daysSinceEpoch y + daysBeforeMonth y 13"
    by (simp only: year_length daysBeforeMonth_13)
  have a: "daysSinceEpoch y \<le> dateToDays y m d" using n lo by linarith
  have b: "dateToDays y m d < daysSinceEpoch (y + 1)" using n hi yl by linarith
  show "civilYear (dateToDays y m d) = y" by (rule year_unique(1)[OF a b])
  have r: "civilYday (dateToDays y m d) = ?off"
    using year_unique(2)[OF a b] n by linarith
  have one: "1 \<le> (1::int)" "(1::int) \<le> 12" by simp_all
  have h: "daysBeforeMonth y 1 + ?off < daysBeforeMonth y 13"
    using hi by (simp add: daysBeforeMonth_1)
  let ?m' = "fst (findMonth y 1 ?off)" and ?d' = "snd (findMonth y 1 ?off)"
  from findMonth_spec[OF one lo h]
  have v: "1 \<le> ?m'" "?m' \<le> 12" "1 \<le> ?d'" "?d' \<le> daysIn ?m' y"
    and e: "daysBeforeMonth y ?m' + ?d' - 1 = ?off"
    by (simp_all add: daysBeforeMonth_1)
  have st': "daysBeforeMonth y (?m' + 1) = daysBeforeMonth y ?m' + daysIn ?m' y"
    by (rule daysBeforeMonth_step) fact+
  have "?m' = m"
  proof (rule ccontr)
    assume "?m' \<noteq> m"
    then consider "?m' + 1 \<le> m" | "m + 1 \<le> ?m'" by linarith
    then show False
    proof cases
      case 1
      have "daysBeforeMonth y (?m' + 1) \<le> daysBeforeMonth y m"
        using 1 v assms by (intro daysBeforeMonth_mono) simp_all
      with st' e v assms show False by linarith
    next
      case 2
      have "daysBeforeMonth y (m + 1) \<le> daysBeforeMonth y ?m'"
        using 2 v assms by (intro daysBeforeMonth_mono) simp_all
      with st e v assms show False by linarith
    qed
  qed
  moreover from this e have "?d' = d" by simp
  ultimately show "findMonth y 1 (civilYday (dateToDays y m d)) = (m, d)"
    unfolding r by (simp add: prod_eq_iff)
qed

lemma nsPerDay_pos: "0 < nsPerDay"
  by (simp add: nsPerDay_def)

lemma clock_sum:
  "(case Clock t of (h, mi, s) \<Rightarrow> h * 3600000000000 + mi * 60000000000 + s * 1000000000)
     + Nanosecond t = t mod nsPerDay"
proof -
  define x where "x = t mod nsPerDay"
  define st where "st = x div 1000000000"
  have ns: "Nanosecond t = x mod 1000000000"
    unfolding Nanosecond_def x_def nsPerDay_def
    by (rule mod_mod_cancel[symmetric]) simp
  have a: "(st mod 3600) mod 60 = st mod 60"
    by (rule mod_mod_cancel) simp
  have b: "st mod 3600 = 60 * ((st mod 3600) div 60) + (st mod 3600) mod 60"
    by simp
  have c: "st = 3600 * (st div 3600) + st mod 3600"
    by simp
  have s: "(st div 3600) * 3600 + ((st mod 3600) div 60) * 60 + st mod 60 = st"
    using a b c by linarith
  have xx: "x = 1000000000 * st + x mod 1000000000"
    unfolding st_def by simp
  have "Clock t = (st div 3600, (st mod 3600) div 60, st mod 60)"
    unfolding Clock_def Let_def st_def x_def by simp
  then have "(case Clock t of (h, mi, s) \<Rightarrow> h * 3600000000000 + mi * 60000000000 + s * 1000000000)
      = ((st div 3600) * 3600 + ((st mod 3600) div 60) * 60 + st mod 60) * 1000000000"
    by (simp add: algebra_simps)
  also have "\<dots> = st * 1000000000" by (simp only: s)
  finally show ?thesis using ns xx unfolding x_def[symmetric] by linarith
qed

lemma dateToDays_add: "dateToDays y m (d + k) = dateToDays y m d + k"
  by (simp add: dateToDays_def Let_def)

lemma AddDate_days: "AddDate t 0 0 k = t + k * nsPerDay"
proof -
  obtain h mi s where c: "Clock t = (h, mi, s)" by (cases "Clock t")
  have tod: "h * 3600000000000 + mi * 60000000000 + s * 1000000000 + Nanosecond t = t mod nsPerDay"
    using clock_sum[of t] c by simp
  have "AddDate t 0 0 k = dateToDays (Year t) (Month t) (Day t + k) * nsPerDay
      + (h * 3600000000000 + mi * 60000000000 + s * 1000000000 + Nanosecond t)"
    by (simp add: AddDate_def c time_Date_def)
  also have "\<dots> = (absDays t + k) * nsPerDay + t mod nsPerDay"
    by (simp only: dateToDays_add date_roundtrip tod)
  also have "\<dots> = t + k * nsPerDay"
    by (simp add: absDays_def algebra_simps)
  finally show ?thesis .
qed

lemma start_of_day:
  "time_Date (Year t) (Month t) (Day t) 0 0 0 0 = absDays t * nsPerDay"
  by (simp add: time_Date_def date_roundtrip)

lemma absDays_add_days: "absDays (t + k * nsPerDay) = absDays t + k"
  using nsPerDay_pos by (simp add: absDays_def)

lemma absDays_midnight: "absDays (n * nsPerDay) = n"
  using nsPerDay_pos by (simp add: absDays_def)

lemma Weekday_range: "0 \<le> Weekday t \<and> Weekday t \<le> 6"
  by (simp add: Weekday_def)

section \<open>The data model\<close>

text \<open>
  \<^verbatim>\<open>models.Transaction\<close>, with the fields the service reads and writes. \<^verbatim>\<open>Amount\<close> is a
  \<^verbatim>\<open>float64\<close> in the source and a real number here; \<^verbatim>\<open>NextAppearDate\<close> is a
  \<^verbatim>\<open>time.Time\<close> whose zero value means that no next date is set.
\<close>

record Transaction =
  ID :: string
  Amount :: real
  Title :: string
  Category :: string
  Date :: Time
  NextAppearDate :: Time
  RepeatTime :: string

record CreateTransactionRequest =
  reqAmount :: real
  reqTitle :: string
  reqCategory :: string
  reqDate :: string
  reqRepeatTime :: string

record TransactionsResponse =
  CurrentPage :: int
  TotalPages :: int
  Data :: "Transaction list"

text \<open>\<^verbatim>\<open>models.IncomeCategory\<close>, the UTF-8 bytes of the Russian word for income.\<close>

definition IncomeCategory :: string where
  "IncomeCategory = [CHR 0xD0, CHR 0x94, CHR 0xD0, CHR 0xBE, CHR 0xD1, CHR 0x85,
     CHR 0xD0, CHR 0xBE, CHR 0xD0, CHR 0xB4, CHR 0xD1, CHR 0x8B]"

text \<open>
  A Go map is modelled as an association list with distinct keys: \<open>map_of\<close> reads a key,
  \<open>AList.update\<close> assigns one (in place when the key is present, at the end otherwise),
  \<open>AList.delete\<close> removes one. Go leaves the order in which \<^verbatim>\<open>range\<close> visits a map
  unspecified; the model visits the entries in list order.
\<close>

type_synonym UserTransactions = "(string \<times> Transaction) list"
type_synonym Store = "(string \<times> UserTransactions) list"

definition NewTransactionsService :: "Store option \<Rightarrow> Store" where
  "NewTransactionsService initialData =
     (case initialData of Some d \<Rightarrow> d | None \<Rightarrow> [])"

section \<open>The repeat specification: the next date\<close>

text \<open>
  The loop of \<^verbatim>\<open>calculateNextAppearDate\<close> over the parts of the specification;
  \<open>nextAppearDate\<close> is the loop's variable of that name.
\<close>

fun nextAppearLoop :: "Time \<Rightarrow> Time \<Rightarrow> string list \<Rightarrow> Time" where
  "nextAppearLoop now nextAppearDate [] = nextAppearDate"
| "nextAppearLoop now nextAppearDate (e # repeatTimes) =
     (let nextEvent = strings_TrimSpace e in
      if nextEvent = [] then nextAppearLoop now nextAppearDate repeatTimes
      else (case strconv_Atoi nextEvent of
              Inr date \<Rightarrow>
                (let nextTime =
                       (if date \<ge> Day now
                        then time_Date (Year now) (Month now) date 0 0 0 0
                        else AddDate (time_Date (Year now) (Month now) date 0 0 0 0) 0 1 0)
                 in nextAppearLoop now
                      (if After nextAppearDate nextTime then nextTime else nextAppearDate)
                      repeatTimes)
            | Inl _ \<Rightarrow>
                (case convertToWeekDay nextEvent of
                   Inr weekday \<Rightarrow>
                     (let d = weekday - Weekday now;
                          daysUntilWeekday = (if d \<le> 0 then d + 7 else d);
                          next = AddDate now 0 0 daysUntilWeekday;
                          nextTime = time_Date (Year next) (Month next) (Day next) 0 0 0 0
                      in nextAppearLoop now
                           (if After nextAppearDate nextTime then nextTime else nextAppearDate)
                           repeatTimes)
                 | Inl _ \<Rightarrow> nextAppearLoop now nextAppearDate repeatTimes)))"

definition calculateNextAppearDate :: "Time \<Rightarrow> string \<Rightarrow> error + Time" where
  "calculateNextAppearDate now repeatTime =
     Inr (nextAppearLoop now (AddDate now 1 0 0) (strings_Split repeatTime CHR '',''))"

section \<open>The transaction service\<close>

text \<open>
  The demo data of a new user. \<open>now\<close> is the reading of the clock; the source reads the
  clock once per field, and the model takes the readings of one call to be the same
  instant.
\<close>

definition getInitialTransactions :: "Time \<Rightarrow> UserTransactions" where
  "getInitialTransactions now =
     [(''c38bcbd2-e3c5-4a03-9001-bfcf763fbbdf'',
       \<lparr>ID = ''c38bcbd2-e3c5-4a03-9001-bfcf763fbbdf'', Amount = 100,
        Title = [CHR 0xD0, CHR 0x92, CHR 0xD0, CHR 0xBE, CHR 0xD0, CHR 0xB4, CHR 0xD0, CHR 0xB0,
          CHR 0x20, CHR 0xD0, CHR 0xB2, CHR 0x20, CHR 0xD0, CHR 0xB7, CHR 0xD0, CHR 0xB0,
          CHR 0xD0, CHR 0xBB, CHR 0xD0, CHR 0xB5],
        Category = [CHR 0xD0, CHR 0x95, CHR 0xD0, CHR 0xB4, CHR 0xD0, CHR 0xB0],
        Date = Add now (- 48 * time_Hour), NextAppearDate = 0, RepeatTime = []\<rparr>),
      (''21867866-21d3-4846-bb5e-c56fbabec4f9'',
       \<lparr>ID = ''21867866-21d3-4846-bb5e-c56fbabec4f9'', Amount = 100,
        Title = [CHR 0xD0, CHR 0x9A, CHR 0xD0, CHR 0xB8, CHR 0xD0, CHR 0xBD, CHR 0xD0, CHR 0xBE],
        Category = [CHR 0xD0, CHR 0xA0, CHR 0xD0, CHR 0xB0, CHR 0xD0, CHR 0xB7, CHR 0xD0, CHR 0xB2,
          CHR 0xD0, CHR 0xBB, CHR 0xD0, CHR 0xB5, CHR 0xD1, CHR 0x87, CHR 0xD0, CHR 0xB5,
          CHR 0xD0, CHR 0xBD, CHR 0xD0, CHR 0xB8, CHR 0xD1, CHR 0x8F],
        Date = Add now (- 24 * 3 * time_Hour), NextAppearDate = 0, RepeatTime = []\<rparr>),
      (''a4075928-12c4-44e9-ac2a-0cf4230d4575'',
       \<lparr>ID = ''a4075928-12c4-44e9-ac2a-0cf4230d4575'', Amount = 1000,
        Title = [CHR 0xD0, CHR 0x97, CHR 0xD0, CHR 0xB0, CHR 0xD1, CHR 0x80, CHR 0xD0, CHR 0xBF,
          CHR 0xD0, CHR 0xBB, CHR 0xD0, CHR 0xB0, CHR 0xD1, CHR 0x82, CHR 0xD0, CHR 0xB0],
        Category = IncomeCategory,
        Date = Add now (- 24 * 7 * time_Hour), NextAppearDate = AddDate now 0 1 0,
        RepeatTime = strconv_Itoa (Day now)\<rparr>)]"

text \<open>The filters of \<^verbatim>\<open>GetTransactions\<close>: the body of its loop over the user's transactions.\<close>

definition passesFilters :: "string list \<Rightarrow> Time \<Rightarrow> Time \<Rightarrow> Transaction \<Rightarrow> bool" where
  "passesFilters categories fromDate toDate transaction =
     (if \<not> IsZero fromDate \<and> Before (Date transaction) fromDate then False
      else if \<not> IsZero toDate \<and> After (Date transaction) toDate then False
      else if length categories = 0 then True
      else list_ex (\<lambda>category. Category transaction = category) categories)"

text \<open>
  \<^verbatim>\<open>sort.Slice\<close> with \<^verbatim>\<open>Date.After\<close> as the order: newest first. The Go sort is not stable;
  the model keeps transactions of equal date in the order they had, which is one of the
  results the Go sort may give.
\<close>

definition sortByDate :: "Transaction list \<Rightarrow> Transaction list" where
  "sortByDate transactions = sort_key (\<lambda>t. - Date t) transactions"

text \<open>
  Arithmetic on Go's \<^verbatim>\<open>int\<close> (64 bits on the platforms the service targets) wraps around.
\<close>

definition wrap64 :: "int \<Rightarrow> int" where
  "wrap64 x = (x + 2 ^ 63) mod 2 ^ 64 - 2 ^ 63"

text \<open>
  The pagination of \<^verbatim>\<open>GetTransactions\<close>. \<^verbatim>\<open>int(math.Ceil(float64(n) / float64(pageSize)))\<close>
  is the ceiling of the exact quotient as long as the count stays below \<open>2^53\<close>; a page
  size of 0 divides by zero, and the conversion of the infinite or undefined quotient to
  an integer is left open by the language. A slice expression with a negative bound, or
  with a lower bound beyond the upper one, panics.
\<close>

definition paginate :: "Transaction list \<Rightarrow> int \<Rightarrow> int \<Rightarrow> error + TransactionsResponse" where
  "paginate filteredTransactions page pageSize =
     (let transactionsAmount = int (length filteredTransactions) in
      if pageSize = 0 then Inl UnspecifiedConversion
      else
        (let totalPages = \<lceil>real_of_int transactionsAmount / real_of_int pageSize\<rceil>;
             paginationStart = wrap64 ((page - 1) * pageSize)
         in if paginationStart \<ge> transactionsAmount
            then Inr \<lparr>CurrentPage = page, TotalPages = totalPages, Data = []\<rparr>
            else
              (let e = wrap64 (paginationStart + pageSize);
                   paginationEnd = (if e > transactionsAmount then transactionsAmount else e)
               in if paginationStart < 0 \<or> paginationEnd < paginationStart
                  then Inl SliceBoundsPanic
                  else Inr \<lparr>CurrentPage = page, TotalPages = totalPages,
                             Data = take (nat (paginationEnd - paginationStart))
                                      (drop (nat paginationStart) filteredTransactions)\<rparr>)))"

text \<open>
  \<^verbatim>\<open>GetTransactions\<close>. The local variable \<open>userTransactions\<close> is read from the store
  before the demo data are stored for an unknown user, and is not read again: for an
  unknown user it is the nil map, over which the loop does not run.
\<close>

definition GetTransactions ::
  "Time \<Rightarrow> string \<Rightarrow> string list \<Rightarrow> Time \<Rightarrow> Time \<Rightarrow> int \<Rightarrow> int \<Rightarrow> Store
     \<Rightarrow> (error + TransactionsResponse) \<times> Store" where
  "GetTransactions now userID categories fromDate toDate page pageSize ts =
     (let found = map_of ts userID;
          userTransactions = (case found of Some m \<Rightarrow> m | None \<Rightarrow> []);
          ts' = (case found of
                   None \<Rightarrow> AList.update userID (getInitialTransactions now) ts
                 | Some _ \<Rightarrow> ts);
          filteredTransactions =
            sortByDate (filter (passesFilters categories fromDate toDate) (map snd userTransactions))
      in (paginate filteredTransactions page pageSize, ts'))"

definition GetAllTransactions ::
  "Time \<Rightarrow> string \<Rightarrow> Time \<Rightarrow> Time \<Rightarrow> Store \<Rightarrow> (error + Transaction list) \<times> Store" where
  "GetAllTransactions now userID fromDate toDate ts =
     (let found = map_of ts userID;
          userTransactions = (case found of Some m \<Rightarrow> m | None \<Rightarrow> []);
          ts' = (case found of
                   None \<Rightarrow> AList.update userID (getInitialTransactions now) ts
                 | Some _ \<Rightarrow> ts);
          filteredTransactions =
            sortByDate (filter (passesFilters [] fromDate toDate) (map snd userTransactions))
      in (Inr filteredTransactions, ts'))"

text \<open>
  \<^verbatim>\<open>CreateTransaction\<close>. \<open>uuid\<close> is the identifier \<^verbatim>\<open>uuid.New()\<close> returns in this call.
\<close>

definition CreateTransaction ::
  "Time \<Rightarrow> string \<Rightarrow> string \<Rightarrow> CreateTransactionRequest \<Rightarrow> Store
     \<Rightarrow> (error + string) \<times> Store" where
  "CreateTransaction now uuid userID req ts =
     (case time_Parse (reqDate req) of
        Inl e \<Rightarrow> (Inl (ErrBadRequest e), ts)
      | Inr date \<Rightarrow>
          (case validateRepeatString (reqRepeatTime req) of
             Some e \<Rightarrow> (Inl (ErrBadRequest e), ts)
           | None \<Rightarrow>
               (let transactionID = uuid;
                    transaction = \<lparr>ID = transactionID, Amount = reqAmount req,
                       Title = reqTitle req, Category = reqCategory req, Date = date,
                       NextAppearDate = 0, RepeatTime = reqRepeatTime req\<rparr>;
                    next = (if reqRepeatTime req \<noteq> []
                            then calculateNextAppearDate date (reqRepeatTime req)
                            else Inr (NextAppearDate transaction))
                in case next of
                     Inl e \<Rightarrow> (Inl (ErrBadRequest e), ts)
                   | Inr nextAppearDate \<Rightarrow>
                       (let transaction = transaction\<lparr>NextAppearDate := nextAppearDate\<rparr>;
                            userTransactions =
                              (case map_of ts userID of
                                 None \<Rightarrow> getInitialTransactions now
                               | Some m \<Rightarrow> m)
                        in (Inr transactionID,
                            AList.update userID
                              (AList.update transactionID transaction userTransactions) ts)))))"

definition DeleteTransaction :: "string \<Rightarrow> string \<Rightarrow> Store \<Rightarrow> error option \<times> Store" where
  "DeleteTransaction userID id' ts =
     (case map_of ts userID of
        None \<Rightarrow> (None, ts)
      | Some userTransactions \<Rightarrow>
          (None, AList.update userID (AList.delete id' userTransactions) ts))"

text \<open>
  \<^verbatim>\<open>GetBackupData\<close>: a new map per user, each transaction copied field by field. The copy
  names six of the seven fields; \<^verbatim>\<open>RepeatTime\<close> keeps the zero value of the new struct.
\<close>

definition backupTransaction :: "Transaction \<Rightarrow> Transaction" where
  "backupTransaction transaction =
     \<lparr>ID = ID transaction, Amount = Amount transaction, Title = Title transaction,
      Category = Category transaction, Date = Date transaction,
      NextAppearDate = NextAppearDate transaction, RepeatTime = []\<rparr>"

definition GetBackupData :: "Store \<Rightarrow> Store" where
  "GetBackupData ts =
     foldl (\<lambda>backupData (userID, transactions).
              AList.update userID
                (foldl (\<lambda>backupTransactions (transactionID, transaction).
                          AList.update transactionID (backupTransaction transaction) backupTransactions)
                   [] transactions)
                backupData)
       [] ts"

text \<open>
  \<^verbatim>\<open>ProcessAllRecurringTransactions\<close>. \<open>uuid k\<close> is the identifier the \<open>k\<close>-th call of
  \<^verbatim>\<open>uuid.New()\<close> returns during this run, counting from 0.
\<close>

definition shouldRepeat :: "Time \<Rightarrow> Transaction \<Rightarrow> bool" where
  "shouldRepeat today transaction \<longleftrightarrow>
     \<not> IsZero (NextAppearDate transaction)
     \<and> Equal (Truncate (NextAppearDate transaction) (24 * time_Hour)) today
     \<and> RepeatTime transaction \<noteq> []"

fun processTransactions ::
  "Time \<Rightarrow> (nat \<Rightarrow> string) \<Rightarrow> nat \<Rightarrow> Transaction list \<Rightarrow> UserTransactions \<Rightarrow> UserTransactions" where
  "processTransactions today uuid k [] userTransactions = userTransactions"
| "processTransactions today uuid k (originalTransaction # rest) userTransactions =
     (let newTransaction = \<lparr>ID = uuid k, Amount = Amount originalTransaction,
             Title = Title originalTransaction, Category = Category originalTransaction,
             Date = today, NextAppearDate = 0, RepeatTime = RepeatTime originalTransaction\<rparr>;
          newTransaction =
            (case calculateNextAppearDate today (RepeatTime originalTransaction) of
               Inr nextAppearDate \<Rightarrow> newTransaction\<lparr>NextAppearDate := nextAppearDate\<rparr>
             | Inl _ \<Rightarrow> newTransaction);
          userTransactions = AList.update (ID newTransaction) newTransaction userTransactions;
          originalTransaction = originalTransaction\<lparr>RepeatTime := []\<rparr>;
          userTransactions =
            AList.update (ID originalTransaction) originalTransaction userTransactions
      in processTransactions today uuid (k + 1) rest userTransactions)"

fun processUsers :: "Time \<Rightarrow> (nat \<Rightarrow> string) \<Rightarrow> nat \<Rightarrow> Store \<Rightarrow> Store" where
  "processUsers today uuid k [] = []"
| "processUsers today uuid k ((userID, userTransactions) # users) =
     (let transactionsToProcess = filter (shouldRepeat today) (map snd userTransactions)
      in (userID, processTransactions today uuid k transactionsToProcess userTransactions)
           # processUsers today uuid (k + length transactionsToProcess) users)"

definition ProcessAllRecurringTransactions ::
  "Time \<Rightarrow> (nat \<Rightarrow> string) \<Rightarrow> Store \<Rightarrow> error option \<times> Store" where
  "ProcessAllRecurringTransactions now uuid ts =
     (let today = Truncate now (24 * time_Hour)
      in (None, processUsers today uuid 0 ts))"

section \<open>Verification: the repeat specification\<close>

lemma convertToWeekDay_Inr_iff: "(\<exists>w. convertToWeekDay t = Inr w) \<longleftrightarrow> isWeekdayToken t"
  by (auto simp: convertToWeekDay_def isWeekdayToken_def weekdayNames_def Let_def)

lemma lower_letter_not_digit:
  assumes "toLowerByte c \<in> set ''mtwfs''"
  shows "digitVal c = None \<and> c \<noteq> CHR ''-'' \<and> c \<noteq> CHR ''+''"
proof (rule ccontr)
  assume "\<not> (digitVal c = None \<and> c \<noteq> CHR ''-'' \<and> c \<noteq> CHR ''+'')"
  then have "c \<in> set ''0123456789-+''"
    by (auto simp: digitVal_def split: if_splits)
  then have "c = CHR ''0'' \<or> c = CHR ''1'' \<or> c = CHR ''2'' \<or> c = CHR ''3'' \<or> c = CHR ''4''
     \<or> c = CHR ''5'' \<or> c = CHR ''6'' \<or> c = CHR ''7'' \<or> c = CHR ''8'' \<or> c = CHR ''9''
     \<or> c = CHR ''-'' \<or> c = CHR ''+''" by simp
  then have "toLowerByte c \<notin> set ''mtwfs''"
    by (elim disjE) (simp_all add: toLowerByte_def)
  with assms show False by simp
qed

lemma weekdayNames_hd: "\<forall>n\<in>set weekdayNames. n \<noteq> [] \<and> hd n \<in> set ''mtwfs''"
  by (simp add: weekdayNames_def)

lemma weekday_hd:
  assumes "isWeekdayToken t"
  shows "\<exists>c cs. t = c # cs \<and> toLowerByte c \<in> set ''mtwfs''"
proof -
  from assms weekdayNames_hd have ne: "strings_ToLower t \<noteq> []"
    and h: "hd (strings_ToLower t) \<in> set ''mtwfs''"
    unfolding isWeekdayToken_def by blast+
  from ne obtain c cs where t: "t = c # cs"
    by (cases t) (auto simp: strings_ToLower_def)
  with h have "toLowerByte c \<in> set ''mtwfs''"
    by (simp add: strings_ToLower_def)
  with t show ?thesis by blast
qed

lemma weekday_not_number:
  assumes "isWeekdayToken t"
  shows "strconv_Atoi t = Inl ErrSyntax"
proof -
  from weekday_hd[OF assms] obtain c cs where t: "t = c # cs" and l: "toLowerByte c \<in> set ''mtwfs''"
    by blast
  from lower_letter_not_digit[OF l] have "digitVal c = None" "c \<noteq> CHR ''-''" "c \<noteq> CHR ''+''"
    by simp_all
  then show ?thesis
    by (simp add: t strconv_Atoi_def)
qed

lemma validateParts_None_iff:
  "validateParts ps = None \<longleftrightarrow> (\<forall>p\<in>set ps. tokenAccepted (strings_TrimSpace p))"
proof (induction ps)
  case Nil
  show ?case by simp
next
  case (Cons p ps)
  show ?case
  proof (cases "strings_TrimSpace p = []")
    case True
    with Cons show ?thesis by (simp add: tokenAccepted_def)
  next
    case False
    show ?thesis
    proof (cases "strconv_Atoi (strings_TrimSpace p)")
      case (Inr num)
      have "\<not> isWeekdayToken (strings_TrimSpace p)"
        using weekday_not_number[of "strings_TrimSpace p"] Inr by auto
      with Cons False Inr show ?thesis
        by (auto simp: tokenAccepted_def isDayToken_def)
    next
      case (Inl e)
      show ?thesis
      proof (cases "convertToWeekDay (strings_TrimSpace p)")
        case (Inr w)
        then have "isWeekdayToken (strings_TrimSpace p)"
          using convertToWeekDay_Inr_iff by blast
        with Cons False Inl Inr show ?thesis
          by (simp add: tokenAccepted_def)
      next
        case Inl2: (Inl e2)
        then have "\<not> isWeekdayToken (strings_TrimSpace p)"
          using convertToWeekDay_Inr_iff[of "strings_TrimSpace p"] by auto
        with Cons False Inl Inl2 show ?thesis
          by (simp add: tokenAccepted_def isDayToken_def)
      qed
    qed
  qed
qed





section \<open>Verification: queries and the backup\<close>

text \<open>A transaction used in the examples below: a recurring expense.\<close>

definition exampleTransaction :: Transaction where
  "exampleTransaction = \<lparr>ID = ''t1'', Amount = 50, Title = ''rent'', Category = ''home'',
     Date = 63874742400000000000, NextAppearDate = 63876384000000000000, RepeatTime = ''1''\<rparr>"










text \<open>
  C4: the first query of an unknown user stores the demo data, but answers from the
  collection it read before storing them, which is empty: no items and 0 pages. The same
  query repeated finds the three demo transactions on 1 page.
\<close>

theorem GetTransactions_first_access_empty:
  "GetTransactions now userID [] 0 0 1 10 []
     = (Inr \<lparr>CurrentPage = 1, TotalPages = 0, Data = []\<rparr>, [(userID, getInitialTransactions now)])
   \<and> fst (GetTransactions now userID [] 0 0 1 10 [(userID, getInitialTransactions now)])
     = Inr \<lparr>CurrentPage = 1, TotalPages = 1, Data = sortByDate (map snd (getInitialTransactions now))\<rparr>
   \<and> length (getInitialTransactions now) = 3"
proof (intro conjI)
  show "GetTransactions now userID [] 0 0 1 10 []
     = (Inr \<lparr>CurrentPage = 1, TotalPages = 0, Data = []\<rparr>, [(userID, getInitialTransactions now)])"
    by (simp add: GetTransactions_def paginate_def sortByDate_def wrap64_def)
  show l: "length (getInitialTransactions now) = 3"
    by (simp add: getInitialTransactions_def)
  have f: "filter (passesFilters [] 0 0) (map snd (getInitialTransactions now)) = map snd (getInitialTransactions now)"
    by (simp add: passesFilters_def IsZero_def)
  have "paginate (sortByDate (map snd (getInitialTransactions now))) 1 10
     = Inr \<lparr>CurrentPage = 1, TotalPages = 1, Data = sortByDate (map snd (getInitialTransactions now))\<rparr>"
    using l by (simp add: paginate_def sortByDate_def wrap64_def Let_def)
  then show "fst (GetTransactions now userID [] 0 0 1 10 [(userID, getInitialTransactions now)])
     = Inr \<lparr>CurrentPage = 1, TotalPages = 1, Data = sortByDate (map snd (getInitialTransactions now))\<rparr>"
    by (simp add: GetTransactions_def f)
qed

text \<open>
  C1: the snapshot does not carry \<^verbatim>\<open>RepeatTime\<close>. A store rebuilt from the snapshot
  answers the query for all transactions with an empty repeat specification where the
  original store answers with the stored one.
\<close>

theorem GetBackupData_drops_RepeatTime:
  "GetBackupData [(u, [(k, exampleTransaction)])] = [(u, [(k, exampleTransaction\<lparr>RepeatTime := []\<rparr>)])]
   \<and> fst (GetAllTransactions now u 0 0 [(u, [(k, exampleTransaction)])]) = Inr [exampleTransaction]
   \<and> fst (GetAllTransactions now u 0 0
            (NewTransactionsService (Some (GetBackupData [(u, [(k, exampleTransaction)])]))))
       = Inr [exampleTransaction\<lparr>RepeatTime := []\<rparr>]
   \<and> exampleTransaction\<lparr>RepeatTime := []\<rparr> \<noteq> exampleTransaction"
proof (intro conjI)
  show b: "GetBackupData [(u, [(k, exampleTransaction)])] = [(u, [(k, exampleTransaction\<lparr>RepeatTime := []\<rparr>)])]"
    by (simp add: GetBackupData_def backupTransaction_def exampleTransaction_def)
  show "fst (GetAllTransactions now u 0 0 [(u, [(k, exampleTransaction)])]) = Inr [exampleTransaction]"
    by (simp add: GetAllTransactions_def passesFilters_def IsZero_def sortByDate_def)
  show "fst (GetAllTransactions now u 0 0
            (NewTransactionsService (Some (GetBackupData [(u, [(k, exampleTransaction)])]))))
       = Inr [exampleTransaction\<lparr>RepeatTime := []\<rparr>]"
    unfolding b by (simp add: GetAllTransactions_def NewTransactionsService_def passesFilters_def IsZero_def sortByDate_def)
  show "exampleTransaction\<lparr>RepeatTime := []\<rparr> \<noteq> exampleTransaction"
    by (simp add: exampleTransaction_def)
qed

section \<open>Verification: the next date of a repeat specification\<close>

text \<open>
  The date the body of the loop of \<^verbatim>\<open>calculateNextAppearDate\<close> computes for one part of
  the specification, before it is compared with \<open>nextAppearDate\<close>: \<open>None\<close> for a part
  the loop passes over (empty after trimming, or neither a number nor a weekday).
\<close>

definition partCandidate :: "Time \<Rightarrow> string \<Rightarrow> Time option" where
  "partCandidate now e =
     (let nextEvent = strings_TrimSpace e in
      if nextEvent = [] then None
      else (case strconv_Atoi nextEvent of
              Inr date \<Rightarrow>
                Some (if date \<ge> Day now
                      then time_Date (Year now) (Month now) date 0 0 0 0
                      else AddDate (time_Date (Year now) (Month now) date 0 0 0 0) 0 1 0)
            | Inl _ \<Rightarrow>
                (case convertToWeekDay nextEvent of
                   Inr weekday \<Rightarrow>
                     (let d = weekday - Weekday now;
                          daysUntilWeekday = (if d \<le> 0 then d + 7 else d);
                          next = AddDate now 0 0 daysUntilWeekday
                      in Some (time_Date (Year next) (Month next) (Day next) 0 0 0 0))
                 | Inl _ \<Rightarrow> None)))"

text \<open>
  The month the specification names for a day-of-month token \<open>d\<close>: the month of the
  reference date when \<open>d\<close> is not before its day, the following month otherwise.
\<close>

definition targetMonth :: "Time \<Rightarrow> int \<Rightarrow> int \<times> int" where
  "targetMonth r d =
     (if d \<ge> Day r then (Year r, Month r)
      else if Month r = 12 then (Year r + 1, 1)
      else (Year r, Month r + 1))"

text \<open>A reference date for the examples: Monday, 10 February 2025, 10:00:00 UTC.\<close>

definition exampleNow :: Time where
  "exampleNow = 63874778400000000000"

lemma nextAppearLoop_Cons:
  "nextAppearLoop now acc (e # es) =
     (case partCandidate now e of
        None \<Rightarrow> nextAppearLoop now acc es
      | Some nextTime \<Rightarrow> nextAppearLoop now (min acc nextTime) es)"
  by (simp add: partCandidate_def Let_def After_def min_def split: sum.splits)

lemma Min_insert_min:
  assumes "finite S"
  shows "Min (insert a (insert c S)) = Min (insert (min a c) S)"
proof (cases "S = {}")
  case True
  then show ?thesis by simp
next
  case False
  with assms show ?thesis by (simp add: min.assoc)
qed

lemma nextAppearLoop_Min:
  "nextAppearLoop now acc es = Min (set (acc # List.map_filter (partCandidate now) es))"
proof (induction es arbitrary: acc)
  case Nil
  show ?case by (simp add: List.map_filter_simps)
next
  case (Cons e es)
  show ?case
  proof (cases "partCandidate now e")
    case None
    then show ?thesis
      by (simp only: nextAppearLoop_Cons Cons.IH List.map_filter_simps option.case)
  next
    case (Some c)
    have "nextAppearLoop now acc (e # es) = Min (set (min acc c # List.map_filter (partCandidate now) es))"
      by (simp only: nextAppearLoop_Cons Some Cons.IH option.case)
    also have "\<dots> = Min (insert acc (insert c (set (List.map_filter (partCandidate now) es))))"
      by (simp only: list.set Min_insert_min[OF finite_set])
    also have "\<dots> = Min (set (acc # List.map_filter (partCandidate now) (e # es)))"
      by (simp add: List.map_filter_simps Some)
    finally show ?thesis .
  qed
qed

lemma map_filter_all_None:
  "(\<forall>x\<in>set xs. f x = None) \<Longrightarrow> List.map_filter f xs = []"
  by (induction xs) (simp_all add: List.map_filter_simps)

lemma strings_Split_no_sep: "sep \<notin> set s \<Longrightarrow> strings_Split s sep = [s]"
  by (induction s) auto

lemma dateToDays_month_step:
  assumes "1 \<le> m" "m \<le> 12"
  shows "dateToDays y (m + 1) d = dateToDays y m d + daysIn m y"
proof (cases "m = 12")
  case True
  have "dateToDays y 13 d = daysSinceEpoch (y + 1) + (d - 1)"
    by (simp add: dateToDays_def daysBefore_def)
  also have "\<dots> = daysSinceEpoch y + daysBeforeMonth y 13 + d - 1"
    by (simp only: year_length daysBeforeMonth_13)
  also have "\<dots> = daysSinceEpoch y + (daysBeforeMonth y 12 + daysIn 12 y) + d - 1"
    using daysBeforeMonth_step[of 12 y] by simp
  also have "\<dots> = dateToDays y 12 d + daysIn 12 y"
    by (simp add: dateToDays_valid)
  finally show ?thesis using True by simp
next
  case False
  with assms have m: "1 \<le> m + 1" "m + 1 \<le> 12" by simp_all
  show ?thesis
    by (simp only: dateToDays_valid[OF m] dateToDays_valid[OF assms] daysBeforeMonth_step[OF assms])
qed

lemma dateToDays_year_step:
  assumes "1 \<le> m" "m \<le> 12"
  shows "dateToDays y m d + 365 \<le> dateToDays (y + 1) m d"
proof -
  have a: "daysBeforeMonth (y + 1) m \<ge> daysBefore ! nat (m - 1)"
    by (simp add: daysBeforeMonth_def)
  have b: "daysBeforeMonth y m \<le> daysBefore ! nat (m - 1) + (if isLeap y then 1 else 0)"
    by (simp add: daysBeforeMonth_def)
  have c: "daysSinceEpoch (y + 1) = daysSinceEpoch y + (if isLeap y then 366 else 365)"
    by (rule year_length)
  show ?thesis
    unfolding dateToDays_valid[OF assms]
    using a b c by (cases "isLeap y") simp_all
qed

lemma tod_bounds: "0 \<le> t mod nsPerDay \<and> t mod nsPerDay < nsPerDay"
  using nsPerDay_pos by simp

lemma time_split: "t = absDays t * nsPerDay + t mod nsPerDay"
  by (simp add: absDays_def)

lemma AddDate_year_lower: "t + 365 * nsPerDay \<le> AddDate t 1 0 0"
proof -
  obtain h mi s where c: "Clock t = (h, mi, s)" by (cases "Clock t")
  have tod: "h * 3600000000000 + mi * 60000000000 + s * 1000000000 + Nanosecond t = t mod nsPerDay"
    using clock_sum[of t] c by simp
  have m: "1 \<le> Month t" "Month t \<le> 12" using civil_valid[of t] by simp_all
  have "AddDate t 1 0 0 = dateToDays (Year t + 1) (Month t) (Day t) * nsPerDay
      + (h * 3600000000000 + mi * 60000000000 + s * 1000000000 + Nanosecond t)"
    by (simp add: AddDate_def c time_Date_def)
  then have e: "AddDate t 1 0 0 = dateToDays (Year t + 1) (Month t) (Day t) * nsPerDay + t mod nsPerDay"
    by (simp only: tod)
  have "absDays t + 365 \<le> dateToDays (Year t + 1) (Month t) (Day t)"
    using dateToDays_year_step[OF m, of "Year t" "Day t"] by (simp only: date_roundtrip)
  then have "(absDays t + 365) * nsPerDay \<le> dateToDays (Year t + 1) (Month t) (Day t) * nsPerDay"
    using nsPerDay_pos by (intro mult_right_mono) simp_all
  with e time_split[of t] show ?thesis by (simp add: algebra_simps)
qed

lemma midnight_fields:
  "absDays (n * nsPerDay) = n" "Clock (n * nsPerDay) = (0, 0, 0)" "Nanosecond (n * nsPerDay) = 0"
proof -
  show "absDays (n * nsPerDay) = n" by (rule absDays_midnight)
  show "Clock (n * nsPerDay) = (0, 0, 0)" by (simp add: Clock_def)
  have "n * nsPerDay = (n * 86400) * 1000000000" by (simp add: nsPerDay_def)
  then have "n * nsPerDay mod 1000000000 = 0" by (simp only: mod_mult_self2_is_0)
  then show "Nanosecond (n * nsPerDay) = 0" by (simp only: Nanosecond_def)
qed

lemma time_Date_midnight: "time_Date y m d 0 0 0 0 = dateToDays y m d * nsPerDay"
  by (simp add: time_Date_def)

lemma civil_of_midnight:
  assumes "1 \<le> m" "m \<le> 12" "1 \<le> d" "d \<le> daysIn m y"
  shows "Year (time_Date y m d 0 0 0 0) = y" "Month (time_Date y m d 0 0 0 0) = m"
    "Day (time_Date y m d 0 0 0 0) = d"
  using civil_of_valid[OF assms]
  by (simp_all add: Year_def Month_def Day_def time_Date_midnight midnight_fields)

lemma convertToWeekDay_range:
  "convertToWeekDay t = Inr w \<Longrightarrow> 0 \<le> w \<and> w \<le> 6"
  by (auto simp: convertToWeekDay_def Let_def split: if_splits)

lemma weekday_part:
  assumes "convertToWeekDay (strings_TrimSpace tok) = Inr w"
  shows "\<exists>k. 1 \<le> k \<and> k \<le> 7 \<and> partCandidate now tok = Some ((absDays now + k) * nsPerDay)
            \<and> (absDays now + k + 1) mod 7 = w \<and> (w = Weekday now \<longrightarrow> k = 7)"
proof -
  let ?t = "strings_TrimSpace tok"
  have wk: "isWeekdayToken ?t" using assms convertToWeekDay_Inr_iff by blast
  then have na: "strconv_Atoi ?t = Inl ErrSyntax" by (rule weekday_not_number)
  from weekday_hd[OF wk] have ne: "?t \<noteq> []" by auto
  define d where "d = w - Weekday now"
  define k where "k = (if d \<le> 0 then d + 7 else d)"
  have w: "0 \<le> w" "w \<le> 6" using convertToWeekDay_range[OF assms] by simp_all
  have n: "0 \<le> Weekday now" "Weekday now \<le> 6" using Weekday_range[of now] by simp_all
  have k: "1 \<le> k" "k \<le> 7" using w n unfolding k_def d_def by auto
  have same: "w = Weekday now \<longrightarrow> k = 7" unfolding k_def d_def by simp
  have nx: "AddDate now 0 0 k = now + k * nsPerDay" by (rule AddDate_days)
  have "partCandidate now tok
      = Some (time_Date (Year (AddDate now 0 0 k)) (Month (AddDate now 0 0 k)) (Day (AddDate now 0 0 k)) 0 0 0 0)"
    using ne na assms by (simp add: partCandidate_def Let_def k_def d_def)
  also have "\<dots> = Some (absDays (now + k * nsPerDay) * nsPerDay)"
    by (simp only: start_of_day nx)
  also have "\<dots> = Some ((absDays now + k) * nsPerDay)"
    by (simp only: absDays_add_days)
  finally have pc: "partCandidate now tok = Some ((absDays now + k) * nsPerDay)" .
  have "(absDays now + k + 1) mod 7 = (Weekday now + k) mod 7"
    unfolding Weekday_def by (simp add: mod_simps algebra_simps)
  also have "\<dots> = w"
  proof (cases "d \<le> 0")
    case True
    then have "Weekday now + k = w + 7" unfolding k_def d_def by simp
    then show ?thesis using w by simp
  next
    case False
    then have "Weekday now + k = w" unfolding k_def d_def by simp
    then show ?thesis using w by simp
  qed
  finally have wd: "(absDays now + k + 1) mod 7 = w" .
  from k pc wd same show ?thesis by blast
qed

lemma candidate_before_fallback:
  assumes "n \<le> absDays now + 364"
  shows "min (AddDate now 1 0 0) (n * nsPerDay) = n * nsPerDay"
proof -
  have "n * nsPerDay \<le> (absDays now + 364) * nsPerDay"
    using assms nsPerDay_pos by (intro mult_right_mono) simp_all
  also have "\<dots> \<le> now + 364 * nsPerDay"
    using time_split[of now] tod_bounds[of now] by (simp add: algebra_simps)
  also have "\<dots> \<le> AddDate now 1 0 0"
    using AddDate_year_lower[of now] nsPerDay_pos by linarith
  finally show ?thesis by simp
qed

lemma single_part:
  assumes "CHR '','' \<notin> set tok" "partCandidate now tok = Some (n * nsPerDay)" "n \<le> absDays now + 364"
  shows "calculateNextAppearDate now tok = Inr (n * nsPerDay)"
proof -
  have "calculateNextAppearDate now tok = Inr (nextAppearLoop now (AddDate now 1 0 0) [tok])"
    by (simp only: calculateNextAppearDate_def strings_Split_no_sep[OF assms(1)])
  also have "nextAppearLoop now (AddDate now 1 0 0) [tok] = min (AddDate now 1 0 0) (n * nsPerDay)"
    by (simp only: nextAppearLoop_Cons assms(2) option.case nextAppearLoop.simps(1))
  also have "\<dots> = n * nsPerDay" by (rule candidate_before_fallback) fact
  finally show ?thesis .
qed

lemma dateToDays_13: "dateToDays y 13 d = dateToDays (y + 1) 1 d"
  by (simp add: dateToDays_def)

lemma day_part:
  assumes a: "strconv_Atoi (strings_TrimSpace tok) = Inr d" and d: "1 \<le> d" "d \<le> 31"
    and tm: "targetMonth now d = (y, m)" and fit: "d \<le> daysIn m y"
  shows "partCandidate now tok = Some (dateToDays y m d * nsPerDay)"
    and "dateToDays y m d \<le> absDays now + 31"
    and "1 \<le> m" "m \<le> 12"
proof -
  let ?t = "strings_TrimSpace tok"
  let ?Y = "Year now" and ?M = "Month now" and ?D = "Day now"
  have ne: "?t \<noteq> []" using a by (auto simp: strconv_Atoi_def)
  have cv: "1 \<le> ?M" "?M \<le> 12" "1 \<le> ?D" "?D \<le> daysIn ?M ?Y"
    using civil_valid[of now] by simp_all
  have rt: "dateToDays ?Y ?M ?D = absDays now" by (rule date_roundtrip)
  have lin: "dateToDays ?Y ?M d = absDays now + (d - ?D)"
    using dateToDays_add[of ?Y ?M ?D "d - ?D"] rt by simp
  have res: "partCandidate now tok = Some (dateToDays y m d * nsPerDay)
      \<and> dateToDays y m d \<le> absDays now + 31 \<and> 1 \<le> m \<and> m \<le> 12"
  proof (cases "d \<ge> ?D")
    case True
    then have ym: "y = ?Y" "m = ?M" using tm by (simp_all add: targetMonth_def)
    have "partCandidate now tok = Some (time_Date ?Y ?M d 0 0 0 0)"
      using ne a True by (simp add: partCandidate_def Let_def)
    then have "partCandidate now tok = Some (dateToDays y m d * nsPerDay)"
      by (simp only: time_Date_midnight ym)
    moreover have "dateToDays y m d \<le> absDays now + 31"
      unfolding ym lin using d cv by simp
    ultimately show ?thesis using cv ym by simp
  next
    case False
    then have lt: "d < ?D" by simp
    have v1: "d \<le> daysIn ?M ?Y" using lt cv by simp
    let ?t1 = "time_Date ?Y ?M d 0 0 0 0"
    have f1: "Year ?t1 = ?Y" "Month ?t1 = ?M" "Day ?t1 = d"
      using civil_of_midnight[OF cv(1) cv(2) d(1) v1] by simp_all
    have c1: "Clock ?t1 = (0, 0, 0)" "Nanosecond ?t1 = 0"
      by (simp_all only: time_Date_midnight midnight_fields)
    have "AddDate ?t1 0 1 0 = time_Date ?Y (?M + 1) d 0 0 0 0"
      unfolding AddDate_def f1 c1 by simp
    then have ad: "AddDate ?t1 0 1 0 = dateToDays ?Y (?M + 1) d * nsPerDay"
      by (simp only: time_Date_midnight)
    have pc: "partCandidate now tok = Some (dateToDays ?Y (?M + 1) d * nsPerDay)"
      using ne a False ad by (simp add: partCandidate_def Let_def)
    have st: "dateToDays ?Y (?M + 1) d = dateToDays ?Y ?M d + daysIn ?M ?Y"
      by (rule dateToDays_month_step) fact+
    have up: "dateToDays ?Y (?M + 1) d \<le> absDays now + 31"
      using st lin lt daysIn_bounds[OF cv(1) cv(2), of ?Y] by linarith
    show ?thesis
    proof (cases "?M = 12")
      case True
      then have ym: "y = ?Y + 1" "m = 1" using tm False by (simp_all add: targetMonth_def)
      have e: "dateToDays ?Y (?M + 1) d = dateToDays y m d"
        unfolding ym True using dateToDays_13[of ?Y d] by simp
      from pc up show ?thesis unfolding e using ym by simp
    next
      case F: False
      then have ym: "y = ?Y" "m = ?M + 1" using tm False by (simp_all add: targetMonth_def)
      from pc up cv F show ?thesis unfolding ym by simp
    qed
  qed
  from res show "partCandidate now tok = Some (dateToDays y m d * nsPerDay)"
    and "dateToDays y m d \<le> absDays now + 31" and "1 \<le> m" "m \<le> 12"
    by simp_all
qed

text \<open>
  C7: for every reference date and every specification, \<^verbatim>\<open>calculateNextAppearDate\<close>
  returns without error the least of the dates its parts produce and the reference date
  plus 1 year; when every part is empty after trimming (the empty specification, or only
  white space and commas), it returns the reference date plus 1 year.
\<close>

theorem calculateNextAppearDate_minimum:
  "calculateNextAppearDate now repeatTime =
     Inr (Min (set (AddDate now 1 0 0
                     # List.map_filter (partCandidate now) (strings_Split repeatTime CHR '','')))) 
   \<and> ((\<forall>e\<in>set (strings_Split repeatTime CHR '',''). strings_TrimSpace e = [])
        \<longrightarrow> calculateNextAppearDate now repeatTime = Inr (AddDate now 1 0 0))"
proof (intro conjI impI)
  show m: "calculateNextAppearDate now repeatTime =
     Inr (Min (set (AddDate now 1 0 0
                     # List.map_filter (partCandidate now) (strings_Split repeatTime CHR '',''))))"
    by (simp only: calculateNextAppearDate_def nextAppearLoop_Min)
  assume "\<forall>e\<in>set (strings_Split repeatTime CHR '',''). strings_TrimSpace e = []"
  then have "\<forall>e\<in>set (strings_Split repeatTime CHR '',''). partCandidate now e = None"
    by (simp add: partCandidate_def)
  then have "List.map_filter (partCandidate now) (strings_Split repeatTime CHR '','') = []"
    by (rule map_filter_all_None)
  with m show "calculateNextAppearDate now repeatTime = Inr (AddDate now 1 0 0)"
    by simp
qed

theorem calculateNextAppearDate_minimum_witness:
  "calculateNextAppearDate exampleNow '' , '' = Inr (AddDate exampleNow 1 0 0)
   \<and> calculateNextAppearDate exampleNow ''15, mon'' = Inr 63875174400000000000
   \<and> Min (set (AddDate exampleNow 1 0 0
         # List.map_filter (partCandidate exampleNow) (strings_Split ''15, mon'' CHR '','')))
       = 63875174400000000000"
proof -
  have e: "\<forall>e\<in>set (strings_Split '' , '' CHR '',''). strings_TrimSpace e = []"
    by (simp add: strings_TrimSpace_def asciiSpace_def)
  from calculateNextAppearDate_minimum[of exampleNow "'' , ''"] e
  have a: "calculateNextAppearDate exampleNow '' , '' = Inr (AddDate exampleNow 1 0 0)"
    by blast
  have b: "calculateNextAppearDate exampleNow ''15, mon'' = Inr 63875174400000000000"
    by code_simp
  from calculateNextAppearDate_minimum[of exampleNow "''15, mon''"] b
  have "Min (set (AddDate exampleNow 1 0 0
         # List.map_filter (partCandidate exampleNow) (strings_Split ''15, mon'' CHR '','')))
       = 63875174400000000000"
    by simp
  with a b show ?thesis by simp
qed



text \<open>
  C5, as the specification states it: for every day-of-month token \<open>d\<close> in \<open>[1, 31]\<close> the
  result has day of month \<open>d\<close> in the month the token names. No date can be so when
  that month has fewer than \<open>d\<close> days: from 10 February 2025 the token \<open>31\<close> gives
  3 March 2025, since \<^verbatim>\<open>time.Date\<close> carries the days beyond the end of the month over.
\<close>

theorem day_token_short_month_counterexample:
  "\<not> (\<forall>now d. 1 \<le> d \<and> d \<le> 31 \<longrightarrow>
        (\<exists>c. calculateNextAppearDate now (strconv_Itoa d) = Inr c
           \<and> Day c = d \<and> (Year c, Month c) = targetMonth now d))"
proof
  assume "\<forall>now d. 1 \<le> d \<and> d \<le> 31 \<longrightarrow>
        (\<exists>c. calculateNextAppearDate now (strconv_Itoa d) = Inr c
           \<and> Day c = d \<and> (Year c, Month c) = targetMonth now d)"
  then have "(1::int) \<le> 31 \<and> (31::int) \<le> 31 \<longrightarrow>
        (\<exists>c. calculateNextAppearDate exampleNow (strconv_Itoa 31) = Inr c
           \<and> Day c = 31 \<and> (Year c, Month c) = targetMonth exampleNow 31)"
    by blast
  then obtain c where c: "calculateNextAppearDate exampleNow (strconv_Itoa 31) = Inr c" and "Day c = 31"
    by auto
  have "calculateNextAppearDate exampleNow (strconv_Itoa 31) = Inr 63876556800000000000"
    by code_simp
  with c have "c = 63876556800000000000" by simp
  moreover have "Day 63876556800000000000 = 3" by code_simp
  ultimately show False using \<open>Day c = 31\<close> by simp
qed

text \<open>
  C5, amended: for every day-of-month token \<open>d\<close> in \<open>[1, 31]\<close> and every reference
  date, when the month the token names (the reference month if \<open>d\<close> is not before the
  day of the reference date, the following month otherwise) has at least \<open>d\<close> days, the
  result for the specification made of that token alone is day \<open>d\<close> of that month, at
  the start of the day.
\<close>

theorem day_token_next_occurrence:
  assumes "strconv_Atoi (strings_TrimSpace tok) = Inr d" and "1 \<le> d" "d \<le> 31"
    and "CHR '','' \<notin> set tok"
    and "targetMonth now d = (y, m)" and "d \<le> daysIn m y"
  shows "\<exists>c. calculateNextAppearDate now tok = Inr c
           \<and> Year c = y \<and> Month c = m \<and> Day c = d
           \<and> Clock c = (0, 0, 0) \<and> Nanosecond c = 0"
proof -
  let ?c = "dateToDays y m d * nsPerDay"
  note p = day_part[OF assms(1,2,3,5,6)]
  have "dateToDays y m d \<le> absDays now + 364" using p(2) by simp
  from single_part[OF assms(4) p(1) this]
  have r: "calculateNextAppearDate now tok = Inr ?c" .
  have f: "Year ?c = y" "Month ?c = m" "Day ?c = d"
    using civil_of_midnight[OF p(3) p(4) assms(2) assms(6)]
    by (simp_all only: time_Date_midnight)
  from r f midnight_fields[of "dateToDays y m d"] show ?thesis by blast
qed

theorem day_token_next_occurrence_witness:
  "(\<exists>c. calculateNextAppearDate exampleNow ''15'' = Inr c
       \<and> Year c = 2025 \<and> Month c = 2 \<and> Day c = 15 \<and> Clock c = (0, 0, 0))
   \<and> (\<exists>c. calculateNextAppearDate exampleNow '' 3'' = Inr c
       \<and> Year c = 2025 \<and> Month c = 3 \<and> Day c = 3 \<and> Clock c = (0, 0, 0))"
proof -
  have a15: "strconv_Atoi (strings_TrimSpace ''15'') = Inr 15"
    and a3: "strconv_Atoi (strings_TrimSpace '' 3'') = Inr 3"
    by code_simp+
  have t15: "targetMonth exampleNow 15 = (2025, 2)"
    and t3: "targetMonth exampleNow 3 = (2025, 3)"
    by code_simp+
  have f15: "15 \<le> daysIn 2 2025" and f3: "3 \<le> daysIn 3 2025"
    by code_simp+
  have r: "(1::int) \<le> 15" "(15::int) \<le> 31" "(1::int) \<le> 3" "(3::int) \<le> 31"
    by simp_all
  have n: "CHR '','' \<notin> set ''15''" "CHR '','' \<notin> set '' 3''"
    by simp_all
  from day_token_next_occurrence[OF a15 r(1) r(2) n(1) t15 f15]
  have x: "\<exists>c. calculateNextAppearDate exampleNow ''15'' = Inr c
       \<and> Year c = 2025 \<and> Month c = 2 \<and> Day c = 15 \<and> Clock c = (0, 0, 0)"
    by blast
  from day_token_next_occurrence[OF a3 r(3) r(4) n(2) t3 f3]
  have y: "\<exists>c. calculateNextAppearDate exampleNow '' 3'' = Inr c
       \<and> Year c = 2025 \<and> Month c = 3 \<and> Day c = 3 \<and> Clock c = (0, 0, 0)"
    by blast
  from x y show ?thesis by (rule conjI)
qed

section \<open>Verification: the materialisation of recurrences\<close>



definition recurrence :: "Time \<Rightarrow> Transaction \<Rightarrow> string \<Rightarrow> Transaction" where
  "recurrence today original newID =
     \<lparr>ID = newID, Amount = Amount original, Title = Title original,
      Category = Category original, Date = today,
      NextAppearDate = (case calculateNextAppearDate today (RepeatTime original) of
                          Inr n \<Rightarrow> n | Inl _ \<Rightarrow> 0),
      RepeatTime = RepeatTime original\<rparr>"

lemma processTransactions_Cons:
  "processTransactions today uuid k (orig # rest) cur =
     processTransactions today uuid (Suc k) rest
       (AList.update (ID orig) (orig\<lparr>RepeatTime := []\<rparr>)
          (AList.update (uuid k) (recurrence today orig (uuid k)) cur))"
  by (simp add: recurrence_def Let_def calculateNextAppearDate_def)











lemma shouldRepeat_iff:
  assumes "today \<noteq> 0"
  shows "shouldRepeat today t \<longleftrightarrow>
           Truncate (NextAppearDate t) (24 * time_Hour) = today \<and> RepeatTime t \<noteq> []"
  using assms by (auto simp: shouldRepeat_def IsZero_def Equal_def Truncate_def time_Hour_def)


text \<open>An example run: identifiers \<open>x\<close>, \<open>xx\<close>, \<dots> on 1 March 2025, 10:00:00 UTC.\<close>

definition exampleUuid :: "nat \<Rightarrow> string" where
  "exampleUuid n = replicate (Suc n) CHR ''x''"









section \<open>Verification: repeat specification and next date of stored transactions\<close>

text \<open>
  The operations that change the store, as calls with their arguments and with what the
  environment supplies to them (the reading of the clock, the identifiers of
  \<^verbatim>\<open>uuid.New()\<close>); a query changes the store when it stores the demo data of an unknown
  user. \<open>run\<close> applies a sequence of calls. An operation is sane when its clock reads
  2 January of year 1 or later and the date of a created transaction is not before that
  day.
\<close>

datatype op =
    OpCreate Time string string CreateTransactionRequest
  | OpDelete string string
  | OpMaterialize Time "nat \<Rightarrow> string"
  | OpGetTransactions Time string "string list" Time Time int int
  | OpGetAllTransactions Time string Time Time

fun applyOp :: "op \<Rightarrow> Store \<Rightarrow> Store" where
  "applyOp (OpCreate now uuid userID req) ts = snd (CreateTransaction now uuid userID req ts)"
| "applyOp (OpDelete userID id') ts = snd (DeleteTransaction userID id' ts)"
| "applyOp (OpMaterialize now uuid) ts = snd (ProcessAllRecurringTransactions now uuid ts)"
| "applyOp (OpGetTransactions now userID categories fromDate toDate page pageSize) ts =
     snd (GetTransactions now userID categories fromDate toDate page pageSize ts)"
| "applyOp (OpGetAllTransactions now userID fromDate toDate) ts =
     snd (GetAllTransactions now userID fromDate toDate ts)"

definition run :: "op list \<Rightarrow> Store \<Rightarrow> Store" where
  "run ops ts = foldl (\<lambda>s op. applyOp op s) ts ops"

fun isMaterialize :: "op \<Rightarrow> bool" where
  "isMaterialize (OpMaterialize now uuid) = True"
| "isMaterialize _ = False"

fun saneOp :: "op \<Rightarrow> bool" where
  "saneOp (OpCreate now uuid userID req) \<longleftrightarrow>
     nsPerDay \<le> now \<and> (case time_Parse (reqDate req) of Inr d \<Rightarrow> nsPerDay \<le> d | Inl _ \<Rightarrow> True)"
| "saneOp (OpDelete userID id') \<longleftrightarrow> True"
| "saneOp (OpMaterialize now uuid) \<longleftrightarrow> nsPerDay \<le> now"
| "saneOp (OpGetTransactions now userID categories fromDate toDate page pageSize) \<longleftrightarrow> nsPerDay \<le> now"
| "saneOp (OpGetAllTransactions now userID fromDate toDate) \<longleftrightarrow> nsPerDay \<le> now"

definition repeatIffNext :: "Store \<Rightarrow> bool" where
  "repeatIffNext ts \<longleftrightarrow>
     (\<forall>(u, m)\<in>set ts. \<forall>(k, t)\<in>set m. RepeatTime t \<noteq> [] \<longleftrightarrow> \<not> IsZero (NextAppearDate t))"

definition repeatHasNext :: "Store \<Rightarrow> bool" where
  "repeatHasNext ts \<longleftrightarrow>
     (\<forall>(u, m)\<in>set ts. \<forall>(k, t)\<in>set m. RepeatTime t \<noteq> [] \<longrightarrow> \<not> IsZero (NextAppearDate t))"

definition txOK :: "Transaction \<Rightarrow> bool" where
  "txOK t \<longleftrightarrow> validateRepeatString (RepeatTime t) = None
             \<and> (RepeatTime t \<noteq> [] \<longrightarrow> \<not> IsZero (NextAppearDate t))"

definition userOK :: "UserTransactions \<Rightarrow> bool" where
  "userOK m \<longleftrightarrow> (\<forall>(k, t)\<in>set m. txOK t)"

definition storeOK :: "Store \<Rightarrow> bool" where
  "storeOK ts \<longleftrightarrow> (\<forall>(u, m)\<in>set ts. userOK m)"

text \<open>A sequence of calls: a recurring transaction is created, fires a week later, and an
  unrelated deletion follows.\<close>

definition exampleOps :: "op list" where
  "exampleOps =
     [OpCreate exampleNow ''t1'' ''u''
        \<lparr>reqAmount = 50, reqTitle = ''rent'', reqCategory = ''home'',
         reqDate = ''2025-02-10'', reqRepeatTime = ''mon''\<rparr>,
      OpMaterialize 63875390400000000000 exampleUuid,
      OpDelete ''u'' ''none'']"

lemma day_part_raw:
  assumes a: "strconv_Atoi (strings_TrimSpace tok) = Inr d" and d: "1 \<le> d"
  shows "\<exists>n. partCandidate now tok = Some (n * nsPerDay) \<and> absDays now \<le> n"
proof -
  let ?t = "strings_TrimSpace tok"
  let ?Y = "Year now" and ?M = "Month now" and ?D = "Day now"
  have ne: "?t \<noteq> []" using a by (auto simp: strconv_Atoi_def)
  have cv: "1 \<le> ?M" "?M \<le> 12" "1 \<le> ?D" "?D \<le> daysIn ?M ?Y"
    using civil_valid[of now] by simp_all
  have rt: "dateToDays ?Y ?M ?D = absDays now" by (rule date_roundtrip)
  have lin: "dateToDays ?Y ?M d = absDays now + (d - ?D)"
    using dateToDays_add[of ?Y ?M ?D "d - ?D"] rt by simp
  show ?thesis
  proof (cases "d \<ge> ?D")
    case True
    have "partCandidate now tok = Some (time_Date ?Y ?M d 0 0 0 0)"
      using ne a True by (simp add: partCandidate_def Let_def)
    then have "partCandidate now tok = Some (dateToDays ?Y ?M d * nsPerDay)"
      by (simp only: time_Date_midnight)
    moreover have "absDays now \<le> dateToDays ?Y ?M d" unfolding lin using True by simp
    ultimately show ?thesis by blast
  next
    case False
    then have lt: "d < ?D" by simp
    have v1: "d \<le> daysIn ?M ?Y" using lt cv by simp
    let ?t1 = "time_Date ?Y ?M d 0 0 0 0"
    have f1: "Year ?t1 = ?Y" "Month ?t1 = ?M" "Day ?t1 = d"
      using civil_of_midnight[OF cv(1) cv(2) d v1] by simp_all
    have c1: "Clock ?t1 = (0, 0, 0)" "Nanosecond ?t1 = 0"
      by (simp_all only: time_Date_midnight midnight_fields)
    have "AddDate ?t1 0 1 0 = time_Date ?Y (?M + 1) d 0 0 0 0"
      unfolding AddDate_def f1 c1 by simp
    then have ad: "AddDate ?t1 0 1 0 = dateToDays ?Y (?M + 1) d * nsPerDay"
      by (simp only: time_Date_midnight)
    have pc: "partCandidate now tok = Some (dateToDays ?Y (?M + 1) d * nsPerDay)"
      using ne a False ad by (simp add: partCandidate_def Let_def)
    have st: "dateToDays ?Y (?M + 1) d = dateToDays ?Y ?M d + daysIn ?M ?Y"
      by (rule dateToDays_month_step) fact+
    have "absDays now \<le> dateToDays ?Y (?M + 1) d"
      using st lin cv d by linarith
    with pc show ?thesis by blast
  qed
qed

lemma accepted_part_candidate:
  assumes "tokenAccepted (strings_TrimSpace e)" "partCandidate now e = Some c"
  shows "\<exists>n. c = n * nsPerDay \<and> absDays now \<le> n"
proof -
  let ?t = "strings_TrimSpace e"
  from assms(2) have ne: "?t \<noteq> []"
    by (auto simp: partCandidate_def Let_def split: if_splits)
  with assms(1) consider "isDayToken ?t" | "isWeekdayToken ?t"
    unfolding tokenAccepted_def by blast
  then show ?thesis
  proof cases
    case 1
    then obtain d where d: "strconv_Atoi ?t = Inr d" "1 \<le> d"
      unfolding isDayToken_def by (auto split: sum.splits)
    from day_part_raw[OF d, of now] assms(2) show ?thesis by auto
  next
    case 2
    then obtain w where "convertToWeekDay ?t = Inr w"
      using convertToWeekDay_Inr_iff by blast
    from weekday_part[OF this, of now] assms(2) show ?thesis by auto
  qed
qed

lemma validateRepeatString_parts:
  "validateRepeatString s = None
    \<longleftrightarrow> (\<forall>tok\<in>set (strings_Split s CHR '',''). tokenAccepted (strings_TrimSpace tok))"
  by (cases s) (simp_all add: validateRepeatString_def validateParts_None_iff tokenAccepted_def strings_TrimSpace_def)

lemma map_filter_mem:
  "c \<in> set (List.map_filter f xs) \<Longrightarrow> \<exists>x\<in>set xs. f x = Some c"
  by (induction xs) (auto simp: List.map_filter_simps split: option.splits)

lemma calculateNextAppearDate_positive:
  assumes "validateRepeatString spec = None" "nsPerDay \<le> now"
  shows "\<exists>c. calculateNextAppearDate now spec = Inr c \<and> 0 < c"
proof -
  let ?cs = "AddDate now 1 0 0 # List.map_filter (partCandidate now) (strings_Split spec CHR '','')"
  have r: "calculateNextAppearDate now spec = Inr (Min (set ?cs))"
    by (simp only: calculateNextAppearDate_def nextAppearLoop_Min)
  have d1: "1 \<le> absDays now"
  proof -
    have "nsPerDay div nsPerDay \<le> now div nsPerDay"
      using assms(2) nsPerDay_pos by (intro zdiv_mono1) simp_all
    then show ?thesis using nsPerDay_pos by (simp add: absDays_def)
  qed
  have "Min (set ?cs) \<in> set ?cs" by (intro Min_in) simp_all
  then consider "Min (set ?cs) = AddDate now 1 0 0"
    | "Min (set ?cs) \<in> set (List.map_filter (partCandidate now) (strings_Split spec CHR '',''))"
    by auto
  then have "0 < Min (set ?cs)"
  proof cases
    case 1
    have "0 < now" using assms(2) nsPerDay_pos by linarith
    with AddDate_year_lower[of now] nsPerDay_pos show ?thesis unfolding 1 by linarith
  next
    case 2
    from map_filter_mem[OF 2] obtain e where
      e: "e \<in> set (strings_Split spec CHR '','')" "partCandidate now e = Some (Min (set ?cs))"
      by blast
    from assms(1) e(1) have "tokenAccepted (strings_TrimSpace e)"
      unfolding validateRepeatString_parts by blast
    from accepted_part_candidate[OF this e(2)] obtain n where
      n: "Min (set ?cs) = n * nsPerDay" "absDays now \<le> n" by blast
    with d1 have "0 < n" by linarith
    then have "0 < n * nsPerDay" using nsPerDay_pos by (intro mult_pos_pos) 
    then show ?thesis unfolding n(1) .
  qed
  with r show ?thesis by blast
qed

lemma set_update_subset: "set (AList.update k v al) \<subseteq> insert (k, v) (set al)"
  by (induction al) auto

lemma set_delete_subset: "set (AList.delete k al) \<subseteq> set al"
  by (induction al) auto

lemma userOK_update: "userOK m \<Longrightarrow> txOK t \<Longrightarrow> userOK (AList.update k t m)"
  unfolding userOK_def using set_update_subset[of k t m] by auto

lemma userOK_delete: "userOK m \<Longrightarrow> userOK (AList.delete k m)"
  unfolding userOK_def using set_delete_subset[of k m] by auto

lemma storeOK_update: "storeOK ts \<Longrightarrow> userOK m \<Longrightarrow> storeOK (AList.update u m ts)"
  unfolding storeOK_def using set_update_subset[of u m ts] by auto

lemma storeOK_lookup: "storeOK ts \<Longrightarrow> map_of ts u = Some m \<Longrightarrow> userOK m"
  unfolding storeOK_def by (auto dest: map_of_SomeD)


lemma day_cases:
  assumes "1 \<le> (d::int)" "d \<le> 31"
  shows "d = 1 \<or> d = 2 \<or> d = 3 \<or> d = 4 \<or> d = 5 \<or> d = 6 \<or> d = 7 \<or> d = 8 \<or> d = 9
     \<or> d = 10 \<or> d = 11 \<or> d = 12 \<or> d = 13 \<or> d = 14 \<or> d = 15 \<or> d = 16 \<or> d = 17
     \<or> d = 18 \<or> d = 19 \<or> d = 20 \<or> d = 21 \<or> d = 22 \<or> d = 23 \<or> d = 24 \<or> d = 25
     \<or> d = 26 \<or> d = 27 \<or> d = 28 \<or> d = 29 \<or> d = 30 \<or> d = 31"
  using assms by arith

lemma Itoa_days:
  assumes "1 \<le> d" "d \<le> 31"
  shows "validateRepeatString (strconv_Itoa d) = None \<and> strconv_Itoa d \<noteq> []"
  using day_cases[OF assms]
  by (elim disjE; hypsubst; code_simp)

lemma absDays_ge_1:
  assumes "nsPerDay \<le> now"
  shows "1 \<le> absDays now"
proof -
  have "nsPerDay div nsPerDay \<le> now div nsPerDay"
    using assms nsPerDay_pos by (intro zdiv_mono1) simp_all
  then show ?thesis using nsPerDay_pos by (simp add: absDays_def)
qed

lemma AddDate_month_positive:
  assumes "nsPerDay \<le> now"
  shows "0 < AddDate now 0 1 0"
proof -
  obtain h mi s where c: "Clock now = (h, mi, s)" by (cases "Clock now")
  have tod: "h * 3600000000000 + mi * 60000000000 + s * 1000000000 + Nanosecond now = now mod nsPerDay"
    using clock_sum[of now] c by simp
  have cv: "1 \<le> Month now" "Month now \<le> 12" using civil_valid[of now] by simp_all
  have "AddDate now 0 1 0 = dateToDays (Year now) (Month now + 1) (Day now) * nsPerDay
      + (h * 3600000000000 + mi * 60000000000 + s * 1000000000 + Nanosecond now)"
    by (simp add: AddDate_def c time_Date_def)
  then have e: "AddDate now 0 1 0 = dateToDays (Year now) (Month now + 1) (Day now) * nsPerDay + now mod nsPerDay"
    by (simp only: tod)
  have "dateToDays (Year now) (Month now + 1) (Day now) = absDays now + daysIn (Month now) (Year now)"
    by (simp only: dateToDays_month_step[OF cv] date_roundtrip)
  with daysIn_bounds[OF cv, of "Year now"] absDays_ge_1[OF assms]
  have "0 < dateToDays (Year now) (Month now + 1) (Day now)" by linarith
  then have "0 < dateToDays (Year now) (Month now + 1) (Day now) * nsPerDay"
    using nsPerDay_pos by (intro mult_pos_pos)
  with e tod_bounds[of now] show ?thesis by linarith
qed

lemma getInitialTransactions_OK:
  assumes "nsPerDay \<le> now"
  shows "userOK (getInitialTransactions now)"
proof -
  have d: "1 \<le> Day now" "Day now \<le> 31"
    using civil_valid[of now] daysIn_bounds[of "Month now" "Year now"] by simp_all
  have v0: "validateRepeatString [] = None" by (simp add: validateRepeatString_def)
  from Itoa_days[OF d] AddDate_month_positive[OF assms] v0
  show ?thesis
    by (simp add: userOK_def txOK_def getInitialTransactions_def IsZero_def)
qed

lemma CreateTransaction_OK:
  assumes "storeOK ts" "saneOp (OpCreate now uuid userID req)"
  shows "storeOK (snd (CreateTransaction now uuid userID req ts))"
proof (cases "time_Parse (reqDate req)")
  case (Inl e)
  with assms(1) show ?thesis by (simp add: CreateTransaction_def)
next
  case (Inr date)
  with assms(2) have now: "nsPerDay \<le> now" and dt: "nsPerDay \<le> date" by simp_all
  show ?thesis
  proof (cases "validateRepeatString (reqRepeatTime req)")
    case (Some e)
    with Inr assms(1) show ?thesis by (simp add: CreateTransaction_def)
  next
    case None
    from calculateNextAppearDate_positive[OF None dt] obtain c where
      c: "calculateNextAppearDate date (reqRepeatTime req) = Inr c" "0 < c" by blast
    define t where "t = \<lparr>ID = uuid, Amount = reqAmount req, Title = reqTitle req,
       Category = reqCategory req, Date = date,
       NextAppearDate = (if reqRepeatTime req \<noteq> [] then c else 0),
       RepeatTime = reqRepeatTime req\<rparr>"
    define m where "m = (case map_of ts userID of None \<Rightarrow> getInitialTransactions now | Some m \<Rightarrow> m)"
    have r: "snd (CreateTransaction now uuid userID req ts)
        = AList.update userID (AList.update uuid t m) ts"
      using Inr None c(1) by (simp add: CreateTransaction_def Let_def t_def m_def)
    have tOK: "txOK t" using None c(2) by (simp add: txOK_def t_def IsZero_def)
    have mOK: "userOK m"
    proof (cases "map_of ts userID")
      case None
      then show ?thesis unfolding m_def using getInitialTransactions_OK[OF now] by simp
    next
      case (Some m0)
      then show ?thesis unfolding m_def using storeOK_lookup[OF assms(1) Some] by simp
    qed
    show ?thesis unfolding r
      by (intro storeOK_update userOK_update assms(1) mOK tOK)
  qed
qed

lemma DeleteTransaction_OK:
  assumes "storeOK ts"
  shows "storeOK (snd (DeleteTransaction userID id' ts))"
proof (cases "map_of ts userID")
  case None
  with assms show ?thesis by (simp add: DeleteTransaction_def)
next
  case (Some m)
  have "userOK (AList.delete id' m)"
    by (intro userOK_delete storeOK_lookup[OF assms Some])
  with assms Some show ?thesis
    by (simp add: DeleteTransaction_def storeOK_update)
qed

lemma seed_OK:
  assumes "storeOK ts" "nsPerDay \<le> now"
  shows "storeOK (case map_of ts userID of
                    None \<Rightarrow> AList.update userID (getInitialTransactions now) ts
                  | Some x \<Rightarrow> ts)"
  using assms getInitialTransactions_OK[OF assms(2)]
  by (auto split: option.splits intro: storeOK_update)

lemma GetTransactions_OK:
  assumes "storeOK ts" "nsPerDay \<le> now"
  shows "storeOK (snd (GetTransactions now userID categories fromDate toDate page pageSize ts))"
  using seed_OK[OF assms] by (simp add: GetTransactions_def Let_def)

lemma GetAllTransactions_OK:
  assumes "storeOK ts" "nsPerDay \<le> now"
  shows "storeOK (snd (GetAllTransactions now userID fromDate toDate ts))"
  using seed_OK[OF assms] by (simp add: GetAllTransactions_def Let_def)

lemma processTransactions_OK:
  assumes "userOK cur" "\<forall>t\<in>set os. txOK t" "nsPerDay \<le> today"
  shows "userOK (processTransactions today uuid k os cur)"
  using assms(1,2)
proof (induction os arbitrary: k cur)
  case Nil
  then show ?case by simp
next
  case (Cons orig rest)
  have o: "txOK orig" using Cons.prems(2) by simp
  then have v: "validateRepeatString (RepeatTime orig) = None" by (simp add: txOK_def)
  from calculateNextAppearDate_positive[OF v assms(3)] obtain c where
    c: "calculateNextAppearDate today (RepeatTime orig) = Inr c" "0 < c" by blast
  have n: "txOK (recurrence today orig (uuid k))"
    using v c by (simp add: txOK_def recurrence_def IsZero_def)
  have cl: "txOK (orig\<lparr>RepeatTime := []\<rparr>)"
    by (simp add: txOK_def validateRepeatString_def)
  show ?case
    unfolding processTransactions_Cons
    using Cons.prems(2) by (intro Cons.IH userOK_update Cons.prems(1) n cl) simp
qed

lemma processUsers_OK:
  assumes "storeOK ts" "nsPerDay \<le> today"
  shows "storeOK (processUsers today uuid k ts)"
  using assms(1)
proof (induction ts arbitrary: k)
  case Nil
  then show ?case by (simp add: storeOK_def)
next
  case (Cons p ts)
  obtain u m where p: "p = (u, m)" by (cases p)
  from Cons.prems have m: "userOK m" and rest: "storeOK ts"
    unfolding storeOK_def p by simp_all
  have "\<forall>t\<in>set (filter (shouldRepeat today) (map snd m)). txOK t"
    using m unfolding userOK_def by auto
  from processTransactions_OK[OF m this assms(2)] Cons.IH[OF rest]
  show ?case unfolding p by (simp add: storeOK_def Let_def)
qed

lemma Truncate_day_ge:
  assumes "nsPerDay \<le> now"
  shows "nsPerDay \<le> Truncate now (24 * time_Hour)"
proof -
  have h: "24 * time_Hour = nsPerDay" by (simp add: time_Hour_def nsPerDay_def)
  have "Truncate now nsPerDay = absDays now * nsPerDay"
    using nsPerDay_pos by (simp add: Truncate_def absDays_def minus_mod_eq_div_mult)
  moreover have "1 * nsPerDay \<le> absDays now * nsPerDay"
    using absDays_ge_1[OF assms] nsPerDay_pos by (intro mult_right_mono) simp_all
  ultimately show ?thesis unfolding h by simp
qed

lemma ProcessAllRecurringTransactions_OK:
  assumes "storeOK ts" "nsPerDay \<le> now"
  shows "storeOK (snd (ProcessAllRecurringTransactions now uuid ts))"
  using processUsers_OK[OF assms(1) Truncate_day_ge[OF assms(2)]]
  by (simp add: ProcessAllRecurringTransactions_def Let_def)

lemma applyOp_OK:
  assumes "storeOK ts" "saneOp op"
  shows "storeOK (applyOp op ts)"
proof (cases op)
  case (OpCreate now uuid userID req)
  with assms CreateTransaction_OK show ?thesis by simp
next
  case (OpDelete userID id')
  with assms DeleteTransaction_OK show ?thesis by simp
next
  case (OpMaterialize now uuid)
  with assms ProcessAllRecurringTransactions_OK show ?thesis by simp
next
  case (OpGetTransactions now userID categories fromDate toDate page pageSize)
  with assms GetTransactions_OK show ?thesis by simp
next
  case (OpGetAllTransactions now userID fromDate toDate)
  with assms GetAllTransactions_OK show ?thesis by simp
qed

lemma run_OK:
  assumes "storeOK ts" "\<forall>op\<in>set ops. saneOp op"
  shows "storeOK (run ops ts)"
  using assms unfolding run_def
proof (induction ops arbitrary: ts)
  case Nil
  then show ?case by simp
next
  case (Cons op ops)
  have "storeOK (applyOp op ts)" using Cons.prems by (intro applyOp_OK) simp_all
  with Cons.IH[of "applyOp op ts"] Cons.prems(2) show ?case by simp
qed

lemma exampleOps_sane: "\<forall>op\<in>set exampleOps. saneOp op"
  by code_simp

lemma exampleOps_final: "\<not> repeatIffNext (run exampleOps (NewTransactionsService None))"
  by code_simp

lemma exampleOps_last: "exampleOps \<noteq> [] \<and> \<not> isMaterialize (last exampleOps)"
  by code_simp

text \<open>
  C3, as the specification states it: in every reachable state every transaction has a
  repeat specification exactly when its next date is set, except immediately after a
  recurrence fires. A transaction whose recurrence has fired keeps its next date with its
  repeat specification cleared for as long as it is stored: here it is so after the
  deletion that follows the run.
\<close>

theorem repeat_iff_next_date_counterexample:
  "\<not> (\<forall>ops. (\<forall>op\<in>set ops. saneOp op) \<and> ops \<noteq> [] \<and> \<not> isMaterialize (last ops)
          \<longrightarrow> repeatIffNext (run ops (NewTransactionsService None)))"
proof
  assume "\<forall>ops. (\<forall>op\<in>set ops. saneOp op) \<and> ops \<noteq> [] \<and> \<not> isMaterialize (last ops)
          \<longrightarrow> repeatIffNext (run ops (NewTransactionsService None))"
  then have "(\<forall>op\<in>set exampleOps. saneOp op) \<and> exampleOps \<noteq> [] \<and> \<not> isMaterialize (last exampleOps)
          \<longrightarrow> repeatIffNext (run exampleOps (NewTransactionsService None))"
    by (rule spec)
  with exampleOps_sane exampleOps_last exampleOps_final show False
    by simp
qed

text \<open>
  C3, amended: in every state reached from the empty store by creations, deletions,
  materialisations and queries (whose clocks and transaction dates are not before
  2 January of year 1), every stored transaction with a repeat specification has its next
  date set. The converse is no invariant: it fails for a transaction whose recurrence
  has fired.
\<close>

theorem reachable_repeat_has_next_date:
  assumes "\<forall>op\<in>set ops. saneOp op"
  shows "repeatHasNext (run ops (NewTransactionsService None))"
proof -
  have "storeOK (NewTransactionsService None)"
    by (simp add: storeOK_def NewTransactionsService_def)
  from run_OK[OF this assms] show ?thesis
    unfolding storeOK_def userOK_def txOK_def repeatHasNext_def by fast
qed

theorem reachable_repeat_has_next_date_witness:
  "repeatHasNext (run exampleOps (NewTransactionsService None))
   \<and> (case map_of (run exampleOps (NewTransactionsService None)) ''u'' of
         Some m \<Rightarrow> (case map_of m ''x'' of
                      Some t \<Rightarrow> RepeatTime t = ''mon'' \<and> \<not> IsZero (NextAppearDate t)
                    | None \<Rightarrow> False)
       | None \<Rightarrow> False)"
proof
  show "repeatHasNext (run exampleOps (NewTransactionsService None))"
    using reachable_repeat_has_next_date[OF exampleOps_sane] .
  show "case map_of (run exampleOps (NewTransactionsService None)) ''u'' of
         Some m \<Rightarrow> (case map_of m ''x'' of
                      Some t \<Rightarrow> RepeatTime t = ''mon'' \<and> \<not> IsZero (NextAppearDate t)
                    | None \<Rightarrow> False)
       | None \<Rightarrow> False"
    by code_simp
qed

end
